theory Spec2Isabelle
  imports Complex_Main
begin

section \<open>Python strings\<close>

text \<open>
  Console output and commands are Python \<open>str\<close> values, modelled as \<open>string\<close>: a
  character of the model is a code point below 256. The character classes are those of
  Python 3 on these code points: \<open>isspace\<close> is \<open>str.isspace\<close> and \<open>\s\<close>,
  \<open>isdigit\<close> is \<open>\d\<close>, and \<open>isword\<close> is \<open>\w\<close> of a \<open>str\<close> pattern, which
  matches the underscore and every alphanumeric character: besides the ASCII letters and
  digits these are the letters, superscript digits and fractions of Latin-1.
\<close>

definition isspace :: "char \<Rightarrow> bool" where
  "isspace c = (let n = (of_char c :: nat) in (9 \<le> n \<and> n \<le> 13) \<or> (28 \<le> n \<and> n \<le> 32) \<or> n = 133 \<or> n = 160)"

definition isdigit :: "char \<Rightarrow> bool" where
  "isdigit c = (let n = (of_char c :: nat) in 48 \<le> n \<and> n \<le> 57)"

definition isword :: "char \<Rightarrow> bool" where
  "isword c = (let n = (of_char c :: nat) in
     (48 \<le> n \<and> n \<le> 57) \<or> (65 \<le> n \<and> n \<le> 90) \<or> n = 95 \<or> (97 \<le> n \<and> n \<le> 122) \<or>
     n = 170 \<or> n = 178 \<or> n = 179 \<or> n = 181 \<or> n = 185 \<or> n = 186 \<or>
     (188 \<le> n \<and> n \<le> 190) \<or> (192 \<le> n \<and> n \<le> 214) \<or> (216 \<le> n \<and> n \<le> 246) \<or>
     248 \<le> n)"

definition strip :: "string \<Rightarrow> string" where
  \<comment> \<open>\<open>s.strip()\<close>\<close>
  "strip s = rev (dropWhile isspace (rev (dropWhile isspace s)))"

fun startswith :: "string \<Rightarrow> string \<Rightarrow> bool" where
  \<comment> \<open>\<open>s.startswith(p)\<close>, written \<open>startswith p s\<close>\<close>
  "startswith [] s = True"
| "startswith (p # ps) [] = False"
| "startswith (p # ps) (c # cs) = (p = c \<and> startswith ps cs)"

fun contains :: "string \<Rightarrow> string \<Rightarrow> bool" where
  \<comment> \<open>\<open>sub in s\<close>, written \<open>contains sub s\<close>\<close>
  "contains sub [] = (sub = [])"
| "contains sub (c # cs) = (startswith sub (c # cs) \<or> contains sub cs)"

fun split_on :: "char \<Rightarrow> string \<Rightarrow> string list" where
  \<comment> \<open>\<open>s.split(sep)\<close> for a one-character separator: never the empty list\<close>
  "split_on sep [] = [[]]"
| "split_on sep (c # cs) =
     (if c = sep then [] # split_on sep cs
      else (case split_on sep cs of [] \<Rightarrow> [[c]] | x # xs \<Rightarrow> (c # x) # xs))"

fun split_ws :: "string \<Rightarrow> string list" where
  \<comment> \<open>\<open>s.split()\<close>: the maximal runs of characters that are not whitespace\<close>
  "split_ws [] = []"
| "split_ws (c # cs) =
     (if isspace c then split_ws cs
      else (case cs of
              [] \<Rightarrow> [[c]]
            | d # ds \<Rightarrow>
                if isspace d then [c] # split_ws cs
                else (case split_ws cs of [] \<Rightarrow> [[c]] | x # xs \<Rightarrow> (c # x) # xs)))"

definition basename :: "string \<Rightarrow> string" where
  \<comment> \<open>\<open>os.path.basename(p)\<close>: what follows the last slash\<close>
  "basename p = rev (takeWhile (\<lambda>c. c \<noteq> CHR ''/'') (rev p))"

fun re_search :: "(string \<Rightarrow> 'a option) \<Rightarrow> string \<Rightarrow> 'a option" where
  \<comment> \<open>\<open>re.search\<close>: the match at the leftmost position where the anchored matcher succeeds\<close>
  "re_search m [] = m []"
| "re_search m (c # cs) = (case m (c # cs) of Some r \<Rightarrow> Some r | None \<Rightarrow> re_search m cs)"

section \<open>Errors, console events and the environment\<close>

datatype error =
    RuntimeError string
  | AssertionError string
  | IndexError
  | ValueError
  | AttributeError
  | TimeoutError
  | StateMachineError string
  | NoPathError string string
  | OtherError string

text \<open>
  A dialog statement as the source writes it:
  \<open>[pattern, action, args, loop_continue, continue_timer]\<close>.
\<close>

datatype action = Act string | Callback string | No_action

type_synonym statement = "string \<times> action \<times> unit option \<times> bool \<times> bool"

text \<open>
  What a line does to its console and its collaborators. Each constructor is one call of
  the source; the methods of the base line class, the dialog processor, the power bar
  and the clock are not part of the sources, so their outcome is the environment's.
\<close>

datatype event =
    Sendline string
  | Expect string nat
  | Process "statement list" "nat option"
  | Go_to string
  | Execute string "nat option"
  | Execute_lines string
  | Execute_only string
  | Sleep nat
  | Power_cycle_all_ports "string option" "string option" string string

text \<open>
  The environment answers a call from the history of calls before it: an error (the
  exception the call raises) or the text it returns. \<open>pdu\<close> is the result of
  \<open>power_cycle_all_ports\<close>, \<open>clock\<close> the reading of \<open>datetime.datetime.now()\<close>
  in seconds.
\<close>

record env =
  reply :: "event list \<Rightarrow> event \<Rightarrow> error + string"
  pdu :: "event list \<Rightarrow> event \<Rightarrow> error + bool"
  clock :: "event list \<Rightarrow> real"

text \<open>
  \<open>KpPatterns\<close> is not among the sources: the prompts and credentials the code reads
  from it are parameters.
\<close>

record patterns =
  login_username :: string
  login_password :: string
  default_password :: string
  sudo_password :: string
  password_prompt :: string
  prelogin_prompt :: string
  fxos_prompt :: string
  fireos_prompt :: string
  expert_prompt :: string
  sudo_prompt :: string
  rommon_prompt :: string
  local_mgmt_prompt :: string
  enable_prompt :: string
  disable_prompt :: string
  config_prompt :: string

text \<open>
  The state of a \<open>KpLine\<close> together with what it shares with the process: the state
  machine's current state, the power-bar settings of the line, the module-level
  \<open>KpConstants\<close>, the metrics published and the console history.
\<close>

record world =
  current_state :: string
  power_bar_server :: "string option"
  power_bar_port :: "string option"
  power_bar_user :: string
  power_bar_pwd :: string
  change_password_flag :: bool
  constants_power_bar_server :: string
  constants_power_bar_port :: string
  constants_power_bar_user :: string
  constants_power_bar_pwd :: string
  metrics :: "(string \<times> int) list"
  trace :: "event list"

text \<open>
  A method returns a value or raises, and changes the world; \<open>None\<close> is a call that
  never returns.
\<close>

type_synonym 'a act = "world \<Rightarrow> ((error + 'a) \<times> world) option"

definition ret :: "'a \<Rightarrow> 'a act" where
  "ret x w = Some (Inr x, w)"

definition raise :: "error \<Rightarrow> 'a act" where
  "raise err w = Some (Inl err, w)"

definition bnd :: "'a act \<Rightarrow> ('a \<Rightarrow> 'b act) \<Rightarrow> 'b act" where
  "bnd m f w =
     (case m w of
        None \<Rightarrow> None
      | Some (Inl err, w') \<Rightarrow> Some (Inl err, w')
      | Some (Inr x, w') \<Rightarrow> f x w')"

definition thn :: "'a act \<Rightarrow> 'b act \<Rightarrow> 'b act" where
  "thn m n = bnd m (\<lambda>_. n)"

definition catch :: "'a act \<Rightarrow> (error \<Rightarrow> 'a act) \<Rightarrow> 'a act" where
  \<comment> \<open>\<open>try: m except err: h(err)\<close>\<close>
  "catch m h w =
     (case m w of
        None \<Rightarrow> None
      | Some (Inl err, w') \<Rightarrow> h err w'
      | Some (Inr x, w') \<Rightarrow> Some (Inr x, w'))"

definition record_event :: "event \<Rightarrow> world \<Rightarrow> world" where
  "record_event ev w = w\<lparr>trace := trace w @ [ev]\<rparr>"

definition call :: "env \<Rightarrow> event \<Rightarrow> string act" where
  \<comment> \<open>a call whose outcome is the environment's\<close>
  "call e ev w =
     (case reply e (trace w) ev of
        Inl err \<Rightarrow> Some (Inl err, record_event ev w)
      | Inr out \<Rightarrow> Some (Inr out, record_event ev w))"

definition sendline :: "string \<Rightarrow> unit act" where
  \<comment> \<open>\<open>self.spawn_id.sendline(text)\<close>\<close>
  "sendline s w = Some (Inr (), record_event (Sendline s) w)"

definition sleep :: "nat \<Rightarrow> unit act" where
  \<comment> \<open>\<open>time.sleep(n)\<close>\<close>
  "sleep n w = Some (Inr (), record_event (Sleep n) w)"

definition process :: "env \<Rightarrow> statement list \<Rightarrow> nat option \<Rightarrow> string act" where
  \<comment> \<open>\<open>Dialog(statements).process(self.spawn_id, timeout=t)\<close>; the text is \<open>match_output\<close>\<close>
  "process e d t = call e (Process d t)"

definition execute :: "env \<Rightarrow> string \<Rightarrow> nat option \<Rightarrow> string act" where
  "execute e cmd t = call e (Execute cmd t)"

definition execute_lines :: "env \<Rightarrow> string \<Rightarrow> string act" where
  "execute_lines e cmds = call e (Execute_lines cmds)"

definition execute_only :: "env \<Rightarrow> string \<Rightarrow> string act" where
  "execute_only e cmd = call e (Execute_only cmd)"

definition update_cur_state :: "string \<Rightarrow> unit act" where
  \<comment> \<open>\<open>self.sm.update_cur_state(state)\<close>\<close>
  "update_cur_state st w = Some (Inr (), w\<lparr>current_state := st\<rparr>)"

text \<open>
  Modelled from the spec: \<open>BasicLine.go_to\<close> is not among the sources. Section 4.2:
  the current state becomes the target once the transition has succeeded, a failure
  leaves it unchanged, and \<open>go_to('any')\<close> sets it to the state that detection finds
  (here the environment's answer).
\<close>

definition go_to :: "env \<Rightarrow> string \<Rightarrow> unit act" where
  "go_to e st w =
     (case reply e (trace w) (Go_to st) of
        Inl err \<Rightarrow> Some (Inl err, record_event (Go_to st) w)
      | Inr found \<Rightarrow>
          Some (Inr (), (record_event (Go_to st) w)
                  \<lparr>current_state := (if st = ''any'' then found else st)\<rparr>))"

section \<open>Power cycling\<close>

definition truthy :: "string option \<Rightarrow> bool" where
  \<comment> \<open>Python's truth value of \<open>None\<close> or a \<open>str\<close>\<close>
  "truthy v = (case v of None \<Rightarrow> False | Some s \<Rightarrow> s \<noteq> [])"

definition KpInitCmds :: string where
  "KpInitCmds = ''\<newline>    top\<newline>    terminal length 0\<newline>    terminal width 511\<newline>''"

fun for_each :: "('a \<Rightarrow> unit act) \<Rightarrow> 'a list \<Rightarrow> unit act" where
  \<comment> \<open>\<open>for x in xs: body(x)\<close>\<close>
  "for_each body [] = ret ()"
| "for_each body (x # xs) = thn (body x) (for_each body xs)"

definition init_terminal :: "env \<Rightarrow> bool \<Rightarrow> unit act" where
  \<comment> \<open>\<open>except StateMachineError\<close> returns from the method; any other error propagates\<close>
  "init_terminal e determine_state =
     bnd (catch (thn (thn (if determine_state then go_to e ''any'' else ret ())
                          (go_to e ''fxos_state''))
                     (ret True))
                (\<lambda>err. case err of StateMachineError exc \<Rightarrow> ret False | _ \<Rightarrow> raise err))
       (\<lambda>entered.
          if entered then
            for_each
              (\<lambda>cmd. let cmd = strip cmd in
                      if cmd = [] then ret () else thn (execute_only e cmd) (ret ()))
              (split_on CHR 0x0A KpInitCmds)
          else ret ())"

definition wait_until_device_on :: "env \<Rightarrow> nat \<Rightarrow> unit act" where
  "wait_until_device_on e timeout =
     thn (process e
            [(''vdc 1 has come online'', No_action, None, False, False),
             (''SW-DRBG health test passed'', No_action, None, False, False)]
            (Some timeout))
    (thn (sleep 120)
         (init_terminal e True))"

definition set_power_bar :: "string option \<Rightarrow> string option \<Rightarrow> string \<Rightarrow> string \<Rightarrow> unit act" where
  "set_power_bar server port user pwd w =
     Some (Inr (), w\<lparr>power_bar_server := server, power_bar_port := port,
                      power_bar_user := user, power_bar_pwd := pwd\<rparr>)"

definition power_cycle_all_ports :: "env \<Rightarrow> bool act" where
  \<comment> \<open>the call of the power bar with the line's stored settings\<close>
  "power_cycle_all_ports e w =
     (let ev = Power_cycle_all_ports (power_bar_server w) (power_bar_port w)
                 (power_bar_user w) (power_bar_pwd w)
      in case pdu e (trace w) ev of
           Inl err \<Rightarrow> Some (Inl err, record_event ev w)
         | Inr res \<Rightarrow> Some (Inr res, record_event ev w))"

definition power_cycle ::
  "env \<Rightarrow> string option \<Rightarrow> string option \<Rightarrow> bool \<Rightarrow> nat \<Rightarrow> string \<Rightarrow> string \<Rightarrow> bool option act" where
  "power_cycle e server port wait_until_device_is_on timeout user pwd w =
     (if (\<not> truthy (power_bar_server w) \<and> \<not> truthy server) \<or> server = Some [] \<or>
         (\<not> truthy (power_bar_port w) \<and> \<not> truthy port) \<or> port = Some []
      then ret None w
      else
        bnd (if truthy server \<or> truthy port then set_power_bar server port user pwd else ret ())
          (\<lambda>_. bnd (power_cycle_all_ports e)
            (\<lambda>result. thn (if wait_until_device_is_on then wait_until_device_on e timeout else ret ())
                         (ret (Some result)))) w)"

section \<open>Waiting for rommon\<close>

definition rommon_dialog :: "patterns \<Rightarrow> statement list" where
  "rommon_dialog p =
     [(''Boot in 10 seconds.'', Act (''sendline('' @ [CHR 0x1B] @ '')''), None, False, False),
      (rommon_prompt p, No_action, None, False, False)]"

definition wait_for_rommon :: "env \<Rightarrow> patterns \<Rightarrow> nat \<Rightarrow> unit act" where
  "wait_for_rommon e p timeout =
     thn (process e (rommon_dialog p) (Some timeout))
         (update_cur_state ''rommon_state'')"

section \<open>Downloading the bundle package\<close>

definition MAX_RETRY_COUNT :: nat where
  "MAX_RETRY_COUNT = 3"

fun str_nat :: "nat \<Rightarrow> string" where
  \<comment> \<open>\<open>'{}'.format(n)\<close> for a natural number\<close>
  "str_nat n =
     (if n < 10 then [''0123456789'' ! n]
      else str_nat (n div 10) @ [''0123456789'' ! (n mod 10)])"

declare str_nat.simps [simp del]

definition match_state :: "string \<Rightarrow> string option" where
  \<comment> \<open>\<open>State: (\w+)\<close> at the head of the text: group 1\<close>
  "match_state s =
     (if startswith ''State: '' s
      then (let g = takeWhile isword (drop 7 s) in if g = [] then None else Some g)
      else None)"

definition get_download_status :: "env \<Rightarrow> string \<Rightarrow> string act" where
  "get_download_status e image_name =
     thn (go_to e ''fxos_state'')
    (bnd (execute e (''show download-task '' @ image_name @ '' detail | grep State'') None)
         (\<lambda>output. case re_search match_state output of
                      None \<Rightarrow> raise AttributeError
                    | Some status \<Rightarrow> ret status))"

definition ishost :: "char \<Rightarrow> bool" where
  \<comment> \<open>the class \<open>[0-9\.]\<close>\<close>
  "ishost c = (isdigit c \<or> c = CHR ''.'')"

definition ispath :: "char \<Rightarrow> bool" where
  \<comment> \<open>the class \<open>[\w\-\./]\<close>\<close>
  "ispath c = (isword c \<or> c = CHR ''-'' \<or> c = CHR ''.'' \<or> c = CHR ''/'')"

definition match_scp_url :: "string \<Rightarrow> string option" where
  \<comment> \<open>\<open>(\w+)://(\w+)@[0-9\.]+:([\w\-\./]+)\<close> at the head of the text: group 3\<close>
  "match_scp_url s =
     (let scheme = takeWhile isword s; r1 = dropWhile isword s in
      if scheme = [] \<or> \<not> startswith ''://'' r1 then None
      else let r2 = drop 3 r1; user = takeWhile isword r2; r3 = dropWhile isword r2 in
        if user = [] \<or> \<not> startswith ''@'' r3 then None
        else let r4 = drop 1 r3; host = takeWhile ishost r4; r5 = dropWhile ishost r4 in
          if host = [] \<or> \<not> startswith '':'' r5 then None
          else let path = takeWhile ispath (drop 1 r5) in
            if path = [] then None else Some path)"

definition match_tftp_url :: "string \<Rightarrow> string option" where
  \<comment> \<open>\<open>(\w+)://[0-9\.]+/([\w\-\./]+)\<close> at the head of the text: group 2\<close>
  "match_tftp_url s =
     (let scheme = takeWhile isword s; r1 = dropWhile isword s in
      if scheme = [] \<or> \<not> startswith ''://'' r1 then None
      else let r2 = drop 3 r1; host = takeWhile ishost r2; r3 = dropWhile ishost r2 in
        if host = [] \<or> \<not> startswith ''/'' r3 then None
        else let path = takeWhile ispath (drop 1 r3) in
          if path = [] then None else Some path)"

definition full_path_of :: "string \<Rightarrow> string act" where
  \<comment> \<open>the branch on the protocol of \<open>file_url\<close> in \<open>_wait_till_download_complete\<close>\<close>
  "full_path_of file_url =
     (if startswith ''scp'' file_url then
        (case re_search match_scp_url file_url of
           None \<Rightarrow> raise (AssertionError (''unknown file_url: '' @ file_url))
         | Some full_path \<Rightarrow> ret full_path)
      else if startswith ''tftp'' file_url then
        (case re_search match_tftp_url file_url of
           None \<Rightarrow> raise (AssertionError (''unknown file_url: '' @ file_url))
         | Some full_path \<Rightarrow> ret full_path)
      else raise (RuntimeError ''Incorrect file url download protocol''))"

text \<open>
  The polling loop of \<open>_wait_till_download_complete\<close>. \<open>elapsed_time\<close> is the loop's
  variable: it is assigned only when the status is \<open>Downloading\<close>.
\<close>

partial_function (option) wait_loop ::
  "env \<Rightarrow> string \<Rightarrow> real \<Rightarrow> real \<Rightarrow> real \<Rightarrow> world \<Rightarrow> ((error + string) \<times> world) option" where
  "wait_loop e image_name wait_upto start_time elapsed_time w =
     (if elapsed_time < wait_upto then
        (case thn (sleep 10) (get_download_status e image_name) w of
           None \<Rightarrow> None
         | Some (Inl err, w') \<Rightarrow> Some (Inl err, w')
         | Some (Inr download_status, w') \<Rightarrow>
             if download_status = ''Downloaded'' then Some (Inr download_status, w')
             else if download_status = ''Downloading'' then
               wait_loop e image_name wait_upto start_time (clock e (trace w') - start_time) w'
             else if download_status = ''Failed'' then Some (Inr download_status, w')
             else wait_loop e image_name wait_upto start_time elapsed_time w')
      else Some (Inl (RuntimeError (''download took too long: '' @ image_name)), w))"

declare wait_loop.simps [code]

definition wait_till_download_complete :: "env \<Rightarrow> string \<Rightarrow> real \<Rightarrow> string act" where
  "wait_till_download_complete e file_url wait_upto =
     thn (go_to e ''fxos_state'')
    (bnd (full_path_of file_url)
         (\<lambda>full_path w. wait_loop e (basename full_path) wait_upto (clock e (trace w)) 0 w))"

fun after_hyphens :: "string \<Rightarrow> string option" where
  \<comment> \<open>what follows the last match of \<open>-{2,}\<close>, if there is one\<close>
  "after_hyphens [] = None"
| "after_hyphens (c # cs) =
     (case after_hyphens cs of
        Some r \<Rightarrow> Some r
      | None \<Rightarrow>
          if c = CHR ''-'' \<and> startswith ''-'' cs
          then Some (dropWhile (\<lambda>d. d = CHR ''-'') cs) else None)"

fun parse_packages :: "string list \<Rightarrow> error + (string \<times> string) list" where
  \<comment> \<open>\<open>package_name, package_version = line.split()\<close> for each line\<close>
  "parse_packages [] = Inr []"
| "parse_packages (line # lines) =
     (case split_ws line of
        [package_name, package_version] \<Rightarrow>
          (case parse_packages lines of
             Inl err \<Rightarrow> Inl err
           | Inr rest \<Rightarrow> Inr ((package_name, package_version) # rest))
      | _ \<Rightarrow> Inl ValueError)"

definition get_packages :: "env \<Rightarrow> (string \<times> string) list act" where
  "get_packages e =
     thn (go_to e ''fxos_state'')
    (thn (execute_lines e ''top\<newline>scope firmware'')
    (bnd (execute e ''show package'' None)
         (\<lambda>output.
            let output = strip (case after_hyphens output of None \<Rightarrow> output | Some r \<Rightarrow> r) in
            if output \<noteq> [] then
              (case parse_packages (split_on CHR 0x0A output) of
                 Inl err \<Rightarrow> raise err
               | Inr package_list \<Rightarrow> ret package_list)
            else ret [])))"

definition is_firmware_fp2k_ready :: "env \<Rightarrow> string \<Rightarrow> bool act" where
  "is_firmware_fp2k_ready e version =
     thn (go_to e ''fxos_state'')
    (bnd (execute_lines e
            (''\<newline>            top\<newline>            scope system\<newline>'' @
             ''            show firmware package-version | grep Package-Vers\<newline>        ''))
         (\<lambda>output. case split_on CHR '':'' output of
                      a # b # rest \<Rightarrow> if strip b \<noteq> version then ret False else ret True
                    | _ \<Rightarrow> raise IndexError))"

definition download_dialog :: "patterns \<Rightarrow> string \<Rightarrow> statement list" where
  "download_dialog p file_server_password =
     [(''continue connecting (yes/no)?'', Act ''sendline(yes)'', None, True, False),
      (''Password:'', Act (''sendline('' @ file_server_password @ '')''), None, True, False),
      (fxos_prompt p, No_action, None, False, False)]"

definition download_image :: "env \<Rightarrow> patterns \<Rightarrow> string \<Rightarrow> string \<Rightarrow> string act" where
  \<comment> \<open>one pass of the retry loop, up to the status of the download\<close>
  "download_image e p fxos_url file_server_password =
     thn (execute_lines e
            ''\<newline>                top\<newline>                scope firmware\<newline>                '')
    (thn (sendline (''download image '' @ fxos_url))
    (thn (sleep 5)
    (thn (process e (download_dialog p file_server_password) None)
         (wait_till_download_complete e fxos_url 1800))))"

definition interrupt_and_wait :: "unit act" where
  \<comment> \<open>\<open>for i in range(30): sendline('\x03'); time.sleep(10)\<close>\<close>
  "interrupt_and_wait =
     for_each (\<lambda>i. thn (sendline [CHR 0x03]) (sleep 10)) [0 ..< 30]"

partial_function (option) download_loop ::
  "env \<Rightarrow> patterns \<Rightarrow> string \<Rightarrow> string \<Rightarrow> nat \<Rightarrow> world \<Rightarrow> ((error + unit) \<times> world) option" where
  "download_loop e p fxos_url file_server_password retry_count w =
     (if retry_count > 0 then
        (case download_image e p fxos_url file_server_password w of
           None \<Rightarrow> None
         | Some (Inl err, w') \<Rightarrow> Some (Inl err, w')
         | Some (Inr status, w') \<Rightarrow>
             if status = ''Failed'' then
               (if retry_count - 1 = 0 then
                  Some (Inl (RuntimeError
                    (''Download failed after '' @ str_nat MAX_RETRY_COUNT @
                     '' tries. Please check details again: '' @ fxos_url)), w')
                else
                  (case interrupt_and_wait w' of
                     None \<Rightarrow> None
                   | Some (Inl err, w'') \<Rightarrow> Some (Inl err, w'')
                   | Some (Inr u, w'') \<Rightarrow>
                       download_loop e p fxos_url file_server_password (retry_count - 1) w''))
             else if status = ''Downloaded'' then Some (Inr (), w')
             else
               (case interrupt_and_wait w' of
                  None \<Rightarrow> None
                | Some (Inl err, w'') \<Rightarrow> Some (Inl err, w'')
                | Some (Inr u, w'') \<Rightarrow>
                    download_loop e p fxos_url file_server_password retry_count w''))
      else Some (Inr (), w))"

declare download_loop.simps [code]

definition download_ftd_fp2k :: "env \<Rightarrow> patterns \<Rightarrow> string \<Rightarrow> string \<Rightarrow> string \<Rightarrow> unit act" where
  "download_ftd_fp2k e p fxos_url ftd_version file_server_password =
     (let bundle_package_name = strip (last (split_on CHR ''/'' fxos_url)) in
      thn (go_to e ''fxos_state'')
     (bnd (is_firmware_fp2k_ready e ftd_version)
          (\<lambda>ready.
             if ready then ret ()
             else
               thn (execute_lines e ''top\<newline>scope firmware'')
              (bnd (get_packages e)
                   (\<lambda>packages.
                      if bundle_package_name \<in> set (map fst packages) then ret ()
                      else download_loop e p fxos_url file_server_password MAX_RETRY_COUNT)))))"

section \<open>Validating the installed version\<close>

definition match_build :: "string \<Rightarrow> string option" where
  \<comment> \<open>\<open>Build\s(\d+)\<close> at the head of the text: group 1\<close>
  "match_build s =
     (if startswith ''Build'' s then
        (case drop 5 s of
           [] \<Rightarrow> None
         | c # cs \<Rightarrow>
             if isspace c
             then (let g = takeWhile isdigit cs in if g = [] then None else Some g)
             else None)
      else None)"

definition match_version :: "string \<Rightarrow> string option" where
  \<comment> \<open>\<open>(Version\s){1}([0-9.]+\d)\<close> at the head of the text: group 2, the longest run of
      digits and dots that ends in a digit and has two characters or more\<close>
  "match_version s =
     (if startswith ''Version'' s then
        (case drop 7 s of
           [] \<Rightarrow> None
         | c # cs \<Rightarrow>
             if isspace c
             then (let g = rev (dropWhile (\<lambda>d. d = CHR ''.'') (rev (takeWhile ishost cs)))
                   in if length g \<ge> 2 then Some g else None)
             else None)
      else None)"

definition validate_version :: "env \<Rightarrow> string \<Rightarrow> unit act" where
  "validate_version e ftd_version =
     bnd (execute e ''show version'' (Some 30))
       (\<lambda>response.
     bnd (if response = [] then execute e ''show version'' (Some 30) else ret response)
       (\<lambda>response.
          case re_search match_build response of
            None \<Rightarrow> raise IndexError
          | Some build \<Rightarrow>
              (case re_search match_version response of
                 None \<Rightarrow> raise IndexError
               | Some version \<Rightarrow>
                   if contains build ftd_version \<and> contains version ftd_version
                   then go_to e ''fxos_state''
                   else raise (RuntimeError
                     (''>>>>>> show version result:\<newline>'' @ response @
                      ''\<newline>does not match ftd package image: '' @ ftd_version)))))"

section \<open>Metrics and device construction\<close>

definition publish_kick_metric :: "string \<Rightarrow> int \<Rightarrow> unit act" where
  "publish_kick_metric name v w = Some (Inr (), w\<lparr>metrics := metrics w @ [(name, v)]\<rparr>)"

text \<open>
  Modelled from the spec: \<open>BasicDevice.__init__\<close> is not among the sources. Section 6
  has one counter increment per top-level operation invocation, so the base constructor
  publishes none; nothing else of it is observable here.
\<close>

definition basic_device_init :: "unit act" where
  "basic_device_init = ret ()"

text \<open>
  \<open>Kp.__init__\<close> and \<open>Wm.__init__\<close>. The attributes of the device object itself (its
  patterns, state machine and line class) are objects of classes outside the sources and
  are left out; the metric and the module-level \<open>KpConstants\<close> are modelled.
  \<open>Wm.__init__\<close> calls \<open>super(Kp, self).__init__()\<close>, which skips \<open>Kp.__init__\<close>.
\<close>

definition Kp_init :: "string \<Rightarrow> string \<Rightarrow> string \<Rightarrow> string \<Rightarrow> unit act" where
  "Kp_init server port user pwd =
     thn basic_device_init
    (thn (publish_kick_metric ''device.kp.init'' 1)
         (\<lambda>w. Some (Inr (), w\<lparr>constants_power_bar_server := server,
                                constants_power_bar_port := port,
                                constants_power_bar_user := user,
                                constants_power_bar_pwd := pwd\<rparr>)))"

definition Wm_init :: "unit act" where
  "Wm_init = thn basic_device_init (publish_kick_metric ''device.wm.init'' 1)"

section \<open>The baseline workflow\<close>

text \<open>An address, netmask or gateway of the unit under test is text, as the caller gives it.\<close>

type_synonym address = string

definition expect:: "env \<Rightarrow> string \<Rightarrow> nat \<Rightarrow> string act" where
  \<comment> \<open>\<open>self.spawn_id.expect(pattern, timeout=t)\<close>\<close>
  "expect e pat t = call e (Expect pat t)"

definition get_current_state :: "string act" where
  \<comment> \<open>reading \<open>self.sm.current_state\<close>\<close>
  "get_current_state w = Some (Inr (current_state w), w)"

definition get_change_password_flag :: "bool act" where
  "get_change_password_flag w = Some (Inr (change_password_flag w), w)"

definition set_change_password_flag :: "bool \<Rightarrow> unit act" where
  "set_change_password_flag b w = Some (Inr (), w\<lparr>change_password_flag := b\<rparr>)"

definition str_opt :: "string option \<Rightarrow> string" where
  \<comment> \<open>\<open>'{}'.format(v)\<close> for \<open>None\<close> or a \<open>str\<close>\<close>
  "str_opt v = (case v of None \<Rightarrow> ''None'' | Some s \<Rightarrow> s)"

definition power_cycle_goto_rommon ::
  "env \<Rightarrow> patterns \<Rightarrow> nat \<Rightarrow> string option \<Rightarrow> string option \<Rightarrow> string \<Rightarrow> string \<Rightarrow> unit act" where
  "power_cycle_goto_rommon e p timeout server port user pwd =
     bnd get_current_state
       (\<lambda>st. if st = ''rommon_state'' then ret ()
             else thn (power_cycle e server port False 600 user pwd)
                      (wait_for_rommon e p timeout))"

definition format_goto_rommon :: "env \<Rightarrow> patterns \<Rightarrow> nat \<Rightarrow> unit act" where
  "format_goto_rommon e p timeout =
     thn (sendline ''connect local-mgmt'')
    (thn (sendline ''format everything'')
    (thn (process e
            [(''Do you still want to format'', Act (''sendline(yes)''), None, False, False)]
            (Some 30))
         (wait_for_rommon e p timeout)))"

definition change_password_dialog :: "patterns \<Rightarrow> statement list" where
  "change_password_dialog p =
     [(''You are required to change your password'', No_action, None, True, False),
      (''System is coming up'', Callback ''time.sleep(60)'', None, True, False),
      (''[a-zA-Z0-9_-]+[^'' @ [CHR 0x08] @ ''Last '' @ [CHR 0x08] @ ''] login:'', Act (''sendline('' @ login_username p @ '')''), None, True, False),
      (''Password: '', Act (''sendline('' @ default_password p @ '')''), None, True, False),
      (''Enter old password:'', Act (''sendline('' @ default_password p @ '')''), None, True, False),
      (''Enter new password:'', Act (''sendline('' @ login_password p @ '')''), None, True, False),
      (''Confirm new password:'', Act (''sendline('' @ login_password p @ '')''), None, True, False),
      (''Your password (was|has been) updated successfully'', No_action, None, False, False),
      (fxos_prompt p, No_action, None, False, False)]"

definition change_password :: "env \<Rightarrow> patterns \<Rightarrow> unit act" where
  \<comment> \<open>\<open>KpLine.__change_password\<close>\<close>
  "change_password e p =
     bnd (process e (change_password_dialog p) (Some 900))
       (\<lambda>output. if contains ''updated successfully'' output
                  then set_change_password_flag True
                  else ret ())"

definition rommon_factory_reset_and_format :: "env \<Rightarrow> patterns \<Rightarrow> nat \<Rightarrow> nat \<Rightarrow> unit act" where
  "rommon_factory_reset_and_format e p boot_timeout format_timeout =
     bnd get_current_state
       (\<lambda>st.
     thn (if st \<noteq> ''rommon_state''
          then thn (go_to e ''any'')
                   (power_cycle_goto_rommon e p format_timeout None None ''admn'' ''admn'')
          else ret ())
    (thn (sendline ''set'')
    (thn (process e
            [(''rommon.*> '', Act (''sendline(factory-reset)''), None, True, False),
             ('' yes/no .*:'', Act (''sendline(yes)''), None, False, False)]
            (Some 30))
    (thn (sendline ''boot'')
    (bnd (process e
            [(''[a-zA-Z0-9_-]+.*login: '', Act (''sendline(admin)''), None, True, False),
             (''Password: '', Act (''sendline('' @ default_password p @ '')''), None, False, False),
             (''boot: cannot determine first file name on device'', No_action, None, False, False)]
            (Some boot_timeout))
         (\<lambda>res.
            if \<not> contains ''boot: cannot determine first file name on device'' res
            then thn (change_password e p)
                (thn (init_terminal e True)
                     (format_goto_rommon e p format_timeout))
            else ret ()))))))"

fun expect_and_sendline :: "env \<Rightarrow> (string \<times> string \<times> nat option) list \<Rightarrow> nat \<Rightarrow> unit act" where
  \<comment> \<open>an entry is \<open>[exp_pattern, send_string]\<close> or \<open>[exp_pattern, send_string, timeout]\<close>\<close>
  "expect_and_sendline e [] timeout = ret ()"
| "expect_and_sendline e ((exp_pattern, send_string, t) # es_list) timeout =
     thn (sendline send_string)
    (thn (expect e exp_pattern (case t of None \<Rightarrow> timeout | Some to \<Rightarrow> to))
         (expect_and_sendline e es_list timeout))"

fun ping_loop :: "env \<Rightarrow> string \<Rightarrow> nat \<Rightarrow> unit act" where
  \<comment> \<open>the \<open>for i in range(20)\<close> loop of \<open>rommon_configure\<close>, with its \<open>else\<close>\<close>
  "ping_loop e tftp_server 0 =
     raise (RuntimeError (''>>>>>> Ping to '' @ tftp_server @ '' server not working''))"
| "ping_loop e tftp_server (Suc n) =
     thn (sendline (''ping '' @ tftp_server))
    (bnd (catch (thn (expect e ''Success rate is 100 percent'' 5) (ret True))
                (\<lambda>err. if err = TimeoutError then ret False else raise err))
         (\<lambda>found. if found then ret ()
                   else thn (sleep 60) (ping_loop e tftp_server n)))"

definition rommon_configure ::
  "env \<Rightarrow> string \<Rightarrow> string \<Rightarrow> address \<Rightarrow> address \<Rightarrow> address \<Rightarrow> unit act" where
  "rommon_configure e tftp_server rommon_file uut_ip uut_netmask uut_gateway =
     thn (expect_and_sendline e
            [(''rommon'', ''address '' @ uut_ip, None),
             (''rommon'', ''netmask '' @ uut_netmask, None),
             (''rommon'', ''gateway '' @ uut_gateway, None),
             (''rommon'', ''server '' @ tftp_server, None),
             (''rommon'', ''image '' @ rommon_file, None),
             (''rommon'', ''sync'', None)]
            10)
         (ping_loop e tftp_server 20)"

definition rommon_tftp_download ::
  "env \<Rightarrow> patterns \<Rightarrow> string \<Rightarrow> string \<Rightarrow> string \<Rightarrow> nat \<Rightarrow> unit act" where
  "rommon_tftp_download e p tftp_server rommon_file username timeout =
     thn (catch (thn (process e
                        [(''rommon.*> '', Act (''sendline(tftpdnld)''), None, True, False),
                         (''[a-zA-Z0-9_-]+[^'' @ [CHR 0x08] @ ''Last '' @ [CHR 0x08] @ ''] login: '', Act (''sendline('' @ username @ '')''), None, True, False),
                         (''Password: '', Act (''sendline('' @ default_password p @ '')''), None, False, False)]
                        (Some timeout))
                     (ret ()))
                (\<lambda>err. raise (RuntimeError
                   (''Download failed. Please check details - tftp_server: '' @ tftp_server @ '', image file: '' @ rommon_file))))
    (thn (change_password e p)
         (sendline []))"

definition install_rommon_build_fp2k ::
  "env \<Rightarrow> patterns \<Rightarrow> string \<Rightarrow> string \<Rightarrow> address \<Rightarrow> address \<Rightarrow> address \<Rightarrow> string \<Rightarrow> nat \<Rightarrow>
   unit act" where
  "install_rommon_build_fp2k e p tftp_server rommon_file uut_ip uut_netmask uut_gateway
       username format_timeout =
     bnd get_current_state
       (\<lambda>st.
     thn (if st \<noteq> ''rommon_state''
          then format_goto_rommon e p format_timeout
          else rommon_factory_reset_and_format e p 300 format_timeout)
    (thn (rommon_configure e tftp_server rommon_file uut_ip uut_netmask uut_gateway)
    (thn (rommon_tftp_download e p tftp_server rommon_file username 600)
    (thn (sleep 60)
         (init_terminal e True)))))"

definition match_version_build :: "string \<Rightarrow> string option" where
  \<comment> \<open>\<open>[\d.]+-[\d]+\<close> at the head of the text: the whole match\<close>
  "match_version_build s =
     (let run = takeWhile ishost s in
      if run = [] then None
      else (case dropWhile ishost s of
              [] \<Rightarrow> None
            | c # cs \<Rightarrow>
                if c = CHR ''-'' \<and> takeWhile isdigit cs \<noteq> []
                then Some (run @ ''-'' @ takeWhile isdigit cs) else None))"

definition install_dialog :: "patterns \<Rightarrow> string \<Rightarrow> statement list" where
  \<comment> \<open>\<open>d1\<close> of \<open>upgrade_bundle_package_fp2k\<close>\<close>
  "install_dialog p ftd_version =
     [(''Invalid Software Version'', No_action, None, False, False),
      (''Do you want to proceed'', Act (''sendline(yes)''), None, True, False),
      (''Triggered the install of software package version '' @ ftd_version, No_action, None, True, False),
      (''Stopping Cisco Firepower 21[1-4]0 Threat Defense'', No_action, None, True, False),
      (''Rebooting...'', No_action, None, True, False),
      (''Cisco FTD begins installation ...'', No_action, None, True, False),
      (''Cisco FTD installation finished successfully.'', No_action, None, True, False),
      (''Cisco FTD initialization finished successfully.'', No_action, None, True, False),
      (''INFO: Power-On Self-Test complete.'', No_action, None, True, False),
      (''INFO: SW-DRBG health test passed.'', No_action, None, True, False),
      (''Failed logins since the last login:'', No_action, None, False, False),
      (rommon_prompt p, Act (''sendline(boot)''), None, True, False)]"

definition network_dialog ::
  "address \<Rightarrow> address \<Rightarrow> address \<Rightarrow> address option \<Rightarrow> string option \<Rightarrow> address option \<Rightarrow>
   string \<Rightarrow> string \<Rightarrow> string \<Rightarrow> statement list" where
  \<comment> \<open>\<open>d5\<close> of \<open>upgrade_bundle_package_fp2k\<close>, in the order of its \<open>append\<close> calls\<close>
  "network_dialog uut_ip uut_netmask uut_gateway uut_ip6 uut_prefix uut_gateway6
       uut_hostname dns_servers search_domains =
     [(''Do you want to configure IPv4'', Act (''sendline(y)''), None, True, False)] @
     (if uut_ip6 = None
      then [(''Do you want to configure IPv6'', Act (''sendline(n)''), None, True, False)]
      else [(''Do you want to configure IPv6'', Act (''sendline(y)''), None, True, False)]) @
     [(''Configure IPv4 via DHCP or manually'', Act (''sendline(manual)''), None, True, False),
      (''Enter an IPv4 address for the management interface'', Act (''sendline('' @ uut_ip @ '')''), None, True, False),
      (''Enter an IPv4 netmask for the management interface'', Act (''sendline('' @ uut_netmask @ '')''), None, True, False),
      (''Enter the IPv4 default gateway for the management interface'', Act (''sendline('' @ uut_gateway @ '')''), None, True, False)] @
     (if uut_ip6 \<noteq> None
      then [(''Configure IPv6 via DHCP, router, or manually'', Act (''sendline(manual)''), None, True, False),
            (''Enter the IPv6 address for the management interface'', Act (''sendline('' @ str_opt uut_ip6 @ '')''), None, True, False),
            (''Enter the IPv6 address prefix for the management interface'', Act (''sendline('' @ str_opt uut_prefix @ '')''), None, True, False),
            (''Enter the IPv6 gateway for the management interface'', Act (''sendline('' @ str_opt uut_gateway6 @ '')''), None, True, False)]
      else []) @
     [(''Enter a fully qualified hostname for this system '', Act (''sendline('' @ uut_hostname @ '')''), None, True, False),
      (''Enter a comma-separated list of DNS servers or'', Act (''sendline('' @ dns_servers @ '')''), None, True, False),
      (''Enter a comma-separated list of search domains or'', Act (''sendline('' @ search_domains @ '')''), None, False, False)]"

definition firstboot_dialog :: "patterns \<Rightarrow> string \<Rightarrow> string \<Rightarrow> statement list" where
  \<comment> \<open>\<open>d6\<close> of \<open>upgrade_bundle_package_fp2k\<close>\<close>
  "firstboot_dialog p firewall_mode mode =
     [(''Configure (firewall|deployment) mode'', Act (''sendline('' @ firewall_mode @ '')''), None, True, False)] @
     (if mode = ''local''
      then [(''Manage the device locally?'', Act (''sendline(yes)''), None, True, False)]
      else [(''Manage the device locally?'', Act (''sendline(no)''), None, True, False)]) @
     [(''Successfully performed firstboot initial configuration steps'', Act (''sendline()''), None, True, False),
      (fireos_prompt p, Act (''sendline()''), None, False, False)]"

text \<open>
  In \<open>upgrade_bundle_package_fp2k\<close> the result of \<open>d1.process\<close> is taken to be an
  \<open>ExpectMatch\<close>, as a dialog that returns gives one; its text is \<open>match_output\<close>.
\<close>

definition upgrade_bundle_package_fp2k ::
  "env \<Rightarrow> patterns \<Rightarrow> string \<Rightarrow> string \<Rightarrow> string \<Rightarrow> address \<Rightarrow> address \<Rightarrow> address \<Rightarrow>
   string \<Rightarrow> string \<Rightarrow> string \<Rightarrow> address option \<Rightarrow> string option \<Rightarrow> address option \<Rightarrow>
   string \<Rightarrow> nat \<Rightarrow> unit act" where
  "upgrade_bundle_package_fp2k e p ftd_version uut_hostname uut_password uut_ip uut_netmask
       uut_gateway dns_servers search_domains mode uut_ip6 uut_prefix uut_gateway6
       firewall_mode timeout =
     thn (go_to e ''fxos_state'')
    (thn (execute_lines e
            ''\<newline>            top\<newline>            scope firmware\<newline>            scope auto-install\<newline>        '')
    (thn (case re_search match_version_build ftd_version of
            None \<Rightarrow> raise AttributeError
          | Some v \<Rightarrow> sendline (''install security-pack version '' @ v))
    (bnd (process e (install_dialog p ftd_version) (Some timeout))
         (\<lambda>resp.
     thn (if contains ''Invalid Software Version'' resp
          then raise (RuntimeError
                 ''Invalid Software Version,  please check your installation package'')
          else ret ())
    (bnd get_change_password_flag
         (\<lambda>flag.
            let fxos_login_password = (if flag then login_password p else default_password p) in
     thn (sendline [])
    (thn (process e
            [(''[a-zA-Z0-9_-]+[^'' @ [CHR 0x08] @ ''Last '' @ [CHR 0x08] @ ''] login: '', Act (''sendline(admin)''), None, True, False),
             (''Password: '', Act (''sendline('' @ fxos_login_password @ '')''), None, True, False),
             (''firepower.*#'', Act (''sendline(connect ftd)''), None, True, False),
             (''Press <ENTER> to display the EULA: '', Act (''sendline()''), None, False, False)]
            (Some 180))
    (thn (process e
            [(''--More--'', Act (''send(q)''), None, False, False),
             (''Please enter 'YES' or press <ENTER> to AGREE to the EULA: '', Act (''sendline()''), None, False, False)]
            (Some 180))
    (thn (process e
            [(''Please enter 'YES' or press <ENTER> to AGREE to the EULA: '', Act (''sendline(YES)''), None, True, False),
             (''Enter new password:'', Act (''sendline('' @ uut_password @ '')''), None, True, False),
             (''Confirm new password:'', Act (''sendline('' @ uut_password @ '')''), None, True, False),
             (''You must configure the network to continue.'', No_action, None, False, False)]
            (Some 360))
    (thn (process e
            (network_dialog uut_ip uut_netmask uut_gateway uut_ip6 uut_prefix uut_gateway6
               uut_hostname dns_servers search_domains)
            (Some 600))
    (thn (process e (firstboot_dialog p firewall_mode mode) (Some 900))
         (ret ()))))))))))))"

definition configure_manager :: "env \<Rightarrow> string \<Rightarrow> string option \<Rightarrow> string option \<Rightarrow> unit act" where
  "configure_manager e manager manager_key manager_nat_id =
     bnd (if manager_nat_id = None
          then execute e (''configure manager add '' @ manager @ '' '' @ str_opt manager_key) (Some 120)
          else execute e (''configure manager add '' @ manager @ '' '' @ str_opt manager_key @ '' '' @ str_opt manager_nat_id) (Some 120))
       (\<lambda>response.
          if contains ''Manager successfully configured'' response then ret ()
          else raise (RuntimeError (''>>>>>> configure manager failed:\<newline>'' @ response @ ''\<newline>'')))"

record baseline_args =
  arg_tftp_server :: string
  arg_rommon_file :: string
  arg_uut_hostname :: string
  arg_uut_username :: string
  arg_uut_password :: string
  arg_uut_ip :: string
  arg_uut_netmask :: string
  arg_uut_gateway :: string
  arg_dns_servers :: string
  arg_search_domains :: string
  arg_fxos_url :: string
  arg_ftd_version :: string
  arg_file_server_password :: string
  arg_power_cycle_flag :: bool
  arg_mode :: string
  arg_uut_ip6 :: "string option"
  arg_uut_prefix :: "string option"
  arg_uut_gateway6 :: "string option"
  arg_manager :: "string option"
  arg_manager_key :: "string option"
  arg_manager_nat_id :: "string option"
  arg_firewall_mode :: string
  arg_timeout :: nat
  arg_reboot_timeout :: nat

definition partition_after :: "char \<Rightarrow> string \<Rightarrow> string" where
  \<comment> \<open>\<open>s.partition(sep)[2]\<close>\<close>
  "partition_after sep s = drop 1 (dropWhile (\<lambda>c. c \<noteq> sep) s)"

definition baseline_fp2k_ftd :: "env \<Rightarrow> patterns \<Rightarrow> baseline_args \<Rightarrow> unit act" where
  "baseline_fp2k_ftd e p a =
     thn (publish_kick_metric ''device.kp.baseline'' 1)
    (thn (if arg_power_cycle_flag a
          then thn (power_cycle_goto_rommon e p (arg_reboot_timeout a) None None ''admn'' ''admn'')
                   (rommon_factory_reset_and_format e p 300 (arg_reboot_timeout a))
          else ret ())
    (thn (install_rommon_build_fp2k e p (arg_tftp_server a) (arg_rommon_file a) (arg_uut_ip a)
            (arg_uut_netmask a) (arg_uut_gateway a) (arg_uut_username a) (arg_reboot_timeout a))
    (thn (let dns_server = (case split_on CHR '','' (arg_dns_servers a) of [] \<Rightarrow> [] | x # xs \<Rightarrow> x);
              domain = partition_after CHR ''.'' (arg_uut_hostname a);
              domain = (if domain = [] then arg_search_domains a else domain)
          in execute_lines e
             (''\<newline>            top\<newline>            scope system\<newline>                scope services\<newline>                    disable dhcp-server\<newline>                    create dns '' @
              dns_server @
              ''\<newline>                    set domain-name '' @
              domain @
              ''\<newline>                    show dns\<newline>                    show domain-name\<newline>            scope fabric a\<newline>                show detail\<newline>                set out-of-band static ip '' @
              arg_uut_ip a @
              '' netmask  '' @
              arg_uut_netmask a @
              '' gw '' @
              arg_uut_gateway a @
              ''\<newline>                commit-buffer\<newline>                show detail\<newline>                top\<newline>            scope system\<newline>                scope services\<newline>                    show dns\<newline>                    show domain-name\<newline>                    top\<newline>            ''))
    (thn (download_ftd_fp2k e p (arg_fxos_url a) (arg_ftd_version a) (arg_file_server_password a))
    (thn (upgrade_bundle_package_fp2k e p (arg_ftd_version a) (arg_uut_hostname a)
            (arg_uut_password a) (arg_uut_ip a) (arg_uut_netmask a) (arg_uut_gateway a)
            (arg_dns_servers a) (arg_search_domains a) (arg_mode a) (arg_uut_ip6 a)
            (arg_uut_prefix a) (arg_uut_gateway6 a) (arg_firewall_mode a) (arg_timeout a))
    (thn (go_to e ''any'')
    (thn (go_to e ''fireos_state'')
    (thn (case arg_manager a of
            None \<Rightarrow> ret ()
          | Some manager \<Rightarrow>
              if arg_mode a \<noteq> ''local''
              then configure_manager e manager (arg_manager_key a) (arg_manager_nat_id a)
              else ret ())
         (validate_version e (arg_ftd_version a))))))))))"

definition Wm_baseline :: "env \<Rightarrow> patterns \<Rightarrow> baseline_args \<Rightarrow> unit act" where
  \<comment> \<open>\<open>WmLine.baseline\<close>\<close>
  "Wm_baseline e p a =
     thn (publish_kick_metric ''device.wm.baseline'' 1)
         (baseline_fp2k_ftd e p a)"

section \<open>The Kp state machine\<close>

datatype state = State (state_name: string) (state_pattern: string)

datatype path =
  Path (from_state: state) (to_state: state) (command: string) (dialog: "statement list option")

record statemachine =
  sm_states :: "state list"
  sm_paths :: "path list"
  sm_default_statements :: "statement list"

text \<open>
  \<open>KpDialogs\<close>. \<open>Ftd5500xDialog\<close> and \<open>KpStatements\<close> are not among the sources: the
  five dialogs and the statement that \<open>KpStateMachine.create\<close> reads from them are
  parameters.
\<close>

record ftd5500x_dialogs =
  d_expert_to_disable :: "statement list"
  d_enable_to_disable :: "statement list"
  d_disable_to_enable :: "statement list"
  d_endisable_to_conft :: "statement list"
  disable_to_enable :: "statement list"

definition d_expert_to_sudo :: "patterns \<Rightarrow> statement list" where
  "d_expert_to_sudo p =
     [(password_prompt p, Act (''sendline('' @ sudo_password p @ '')''), None, True, True)]"

definition d_ftd_to_fxos :: "statement list" where
  "d_ftd_to_fxos =
     [(''Please enter 'exit' to go back'', Act ''sendline(exit)'', None, True, False)]"

definition d_prelogin_to_fxos :: "patterns \<Rightarrow> statement list" where
  "d_prelogin_to_fxos p =
     [(password_prompt p, Act (''sendline('' @ login_password p @ '')''), None, True, True)]"

definition prelogin_state :: "patterns \<Rightarrow> state" where
  "prelogin_state p = State ''prelogin_state'' (prelogin_prompt p)"

definition fxos_state :: "patterns \<Rightarrow> state" where
  "fxos_state p = State ''fxos_state'' (fxos_prompt p)"

definition fireos_state :: "patterns \<Rightarrow> state" where
  "fireos_state p = State ''fireos_state'' (fireos_prompt p)"

definition expert_state :: "patterns \<Rightarrow> state" where
  "expert_state p = State ''expert_state'' (expert_prompt p)"

definition sudo_state :: "patterns \<Rightarrow> state" where
  "sudo_state p = State ''sudo_state'' (sudo_prompt p)"

definition rommon_state :: "patterns \<Rightarrow> state" where
  "rommon_state p = State ''rommon_state'' (rommon_prompt p)"

definition local_mgmt_state :: "patterns \<Rightarrow> state" where
  "local_mgmt_state p = State ''local_mgmt_state'' (local_mgmt_prompt p)"

definition enable_state :: "patterns \<Rightarrow> state" where
  "enable_state p = State ''enable_state'' (enable_prompt p)"

definition disable_state :: "patterns \<Rightarrow> state" where
  "disable_state p = State ''disable_state'' (disable_prompt p)"

definition config_state :: "patterns \<Rightarrow> state" where
  "config_state p = State ''config_state'' (config_prompt p)"

text \<open>
  \<open>KpStateMachine.create\<close>: the states in the order of \<open>add_state\<close>, the paths in the
  order of \<open>add_path\<close>, and the default statement.
\<close>

definition KpStateMachine_create :: "patterns \<Rightarrow> ftd5500x_dialogs \<Rightarrow> statement \<Rightarrow> statemachine" where
  "KpStateMachine_create p fd login_password_statement =
     (let prelogin_to_fxos = Path (prelogin_state p) (fxos_state p) [] (Some (d_prelogin_to_fxos p));
          fxos_to_prelogin = Path (fxos_state p) (prelogin_state p) ''top; exit'' None;
          fxos_to_ftd = Path (fxos_state p) (fireos_state p) ''connect ftd'' None;
          fxos_to_local_mgmt = Path (fxos_state p) (local_mgmt_state p) ''connect local-mgmt'' None;
          ftd_to_expert = Path (fireos_state p) (expert_state p) ''expert'' None;
          ftd_expert_to_sudo = Path (expert_state p) (sudo_state p) ''sudo su -'' (Some (d_expert_to_sudo p));
          ftd_sudo_to_expert = Path (sudo_state p) (expert_state p) ''exit'' None;
          expert_to_ftd = Path (expert_state p) (fireos_state p) ''exit'' None;
          local_mgmt_to_fxos = Path (local_mgmt_state p) (fxos_state p) ''exit'' None;
          ftd_to_fxos = Path (fireos_state p) (fxos_state p) ''connect fxos'' (Some d_ftd_to_fxos);
          expert_to_disable_path = Path (expert_state p) (disable_state p) ''sudo lina_cli'' (Some (d_expert_to_disable fd));
          fireos_to_disable_state = Path (fireos_state p) (disable_state p) ''system support diagnostic-cli'' (Some (d_enable_to_disable fd));
          fireos_to_enable_state = Path (fireos_state p) (enable_state p) ''system support diagnostic-cli'' (Some (d_disable_to_enable fd));
          fireos_to_config_state = Path (fireos_state p) (config_state p) ''system support diagnostic-cli'' (Some (d_endisable_to_conft fd));
          disable_to_enable_state = Path (disable_state p) (enable_state p) ''en'' (Some (disable_to_enable fd));
          enable_to_disable_state = Path (enable_state p) (disable_state p) ''disable'' None;
          disable_to_fireos_path = Path (disable_state p) (fireos_state p) ([CHR 0x01] @ ''dexit'') None;
          enable_to_config_path = Path (enable_state p) (config_state p) ''conf t'' None;
          config_to_enable_path = Path (config_state p) (enable_state p) ''end'' None
      in \<lparr>sm_states =
            [prelogin_state p, fxos_state p, fireos_state p, expert_state p, sudo_state p,
             rommon_state p, local_mgmt_state p, enable_state p, disable_state p, config_state p],
          sm_paths =
            [prelogin_to_fxos,
             fxos_to_prelogin,
             fxos_to_ftd,
             fxos_to_local_mgmt,
             ftd_to_expert,
             ftd_expert_to_sudo,
             ftd_sudo_to_expert,
             expert_to_ftd,
             ftd_to_fxos,
             local_mgmt_to_fxos,
             expert_to_disable_path,
             fireos_to_disable_state,
             fireos_to_enable_state,
             fireos_to_config_state,
             disable_to_enable_state,
             enable_to_disable_state,
             disable_to_fireos_path,
             enable_to_config_path,
             config_to_enable_path],
          sm_default_statements = [login_password_statement]\<rparr>)"

text \<open>
  Modelled from the spec: \<open>StateMachine.go_to\<close> is not among the sources. Section 4.2:
  \<open>go_to(name)\<close> finds the shortest sequence of Paths from the current state to
  \<open>name\<close>, breadth-first over the Paths, and fails with \<open>NoPathError\<close> if there is
  none; it executes each Path in order: it sends the command, runs the Path's Dialog
  (merged with the default statements, which come after the Dialog's own rules) or,
  without a Dialog, waits for the detection pattern of the to-state, and only then
  updates the current state to the to-state. A failure aborts the whole \<open>go_to\<close> with
  the underlying error.
\<close>

fun successors :: "path list \<Rightarrow> string list \<Rightarrow> string \<times> path list \<Rightarrow> (string \<times> path list) list" where
  \<comment> \<open>the states not yet visited that are one Path from a state, each with its route\<close>
  "successors [] visited x = []"
| "successors (q # ps) visited x =
     (if state_name (from_state q) = fst x \<and> state_name (to_state q) \<notin> set visited
      then (state_name (to_state q), snd x @ [q]) #
             successors ps (state_name (to_state q) # visited) x
      else successors ps visited x)"

fun next_level :: "path list \<Rightarrow> string list \<Rightarrow> (string \<times> path list) list \<Rightarrow> (string \<times> path list) list" where
  "next_level ps visited [] = []"
| "next_level ps visited (x # xs) =
     (let new = successors ps visited x
      in new @ next_level ps (map fst new @ visited) xs)"

fun explore :: "nat \<Rightarrow> path list \<Rightarrow> string list \<Rightarrow> (string \<times> path list) list \<Rightarrow> (string \<times> path list) list" where
  \<comment> \<open>breadth-first, one level per step: the frontier holds the states of the level,
      each with the route that reached it first\<close>
  "explore 0 ps visited frontier = frontier"
| "explore (Suc k) ps visited frontier =
     (if frontier = [] then []
      else (let next = next_level ps visited frontier
            in frontier @ explore k ps (map fst next @ visited) next))"

definition find_route :: "statemachine \<Rightarrow> string \<Rightarrow> string \<Rightarrow> path list option" where
  "find_route sm source target =
     map_option snd
       (find (\<lambda>x. fst x = target)
          (explore (length (sm_states sm)) (sm_paths sm) [source] [(source, [])]))"

definition run_path :: "env \<Rightarrow> statemachine \<Rightarrow> nat \<Rightarrow> path \<Rightarrow> unit act" where
  "run_path e sm timeout q =
     thn (sendline (command q))
    (thn (case dialog q of
            Some d \<Rightarrow> process e (d @ sm_default_statements sm) (Some timeout)
          | None \<Rightarrow> expect e (state_pattern (to_state q)) timeout)
         (update_cur_state (state_name (to_state q))))"

definition sm_go_to :: "env \<Rightarrow> statemachine \<Rightarrow> string \<Rightarrow> nat \<Rightarrow> unit act" where
  "sm_go_to e sm target timeout =
     bnd get_current_state
       (\<lambda>source. case find_route sm source target of
                   None \<Rightarrow> raise (NoPathError source target)
                 | Some route \<Rightarrow> for_each (run_path e sm timeout) route)"

text \<open>A sequence of Paths of the machine that leads from one state to another.\<close>

fun is_route :: "path list \<Rightarrow> string \<Rightarrow> string \<Rightarrow> path list \<Rightarrow> bool" where
  "is_route ps a b [] = (a = b)"
| "is_route ps a b (q # route) =
     (q \<in> set ps \<and> state_name (from_state q) = a \<and> is_route ps (state_name (to_state q)) b route)"

text \<open>
  The states nearer than \<open>n\<close> Paths from \<open>a\<close>, and those at exactly \<open>n\<close> Paths.
\<close>

definition near :: "path list \<Rightarrow> string \<Rightarrow> nat \<Rightarrow> string set" where
  "near ps a n = {s. \<exists>r. is_route ps a s r \<and> length r < n}"

definition at_dist :: "path list \<Rightarrow> string \<Rightarrow> nat \<Rightarrow> string set" where
  "at_dist ps a n = {s. \<exists>r. is_route ps a s r \<and> length r = n} - near ps a n"

definition bfs_inv :: "path list \<Rightarrow> string \<Rightarrow> nat \<Rightarrow> string list \<Rightarrow> (string \<times> path list) list \<Rightarrow> bool" where
  "bfs_inv ps a n visited frontier =
     (set visited = near ps a (Suc n) \<and> fst ` set frontier = at_dist ps a n \<and>
      list_all (\<lambda>x. is_route ps a (fst x) (snd x) \<and> length (snd x) = n) frontier)"

definition path_events :: "statemachine \<Rightarrow> nat \<Rightarrow> path \<Rightarrow> event list" where
  \<comment> \<open>what the console sees when one Path is executed\<close>
  "path_events sm timeout q =
     [Sendline (command q),
      (case dialog q of
         Some d \<Rightarrow> Process (d @ sm_default_statements sm) (Some timeout)
       | None \<Rightarrow> Expect (state_pattern (to_state q)) timeout)]"

section \<open>The chassis dialogs and the dialog engine\<close>

text \<open>
  The patterns of the chassis and the passwords of \<open>chassis_data\<close> are not among the
  sources: the prompts that \<open>ChassisDialogs\<close> reads from them are parameters.
\<close>

record chassis_prompts =
  chassis_fireos_prompt :: string
  chassis_expert_cli :: string
  chassis_sudo_prompt :: string

definition d_mio_to_fpr_module :: "chassis_prompts \<Rightarrow> statement list" where
  \<comment> \<open>from MIO to module boot cli; the first action is the function
      \<open>action_mio_to_fpr_module\<close>\<close>
  "d_mio_to_fpr_module p =
     [(''Close Network Connection to Exit'', Callback ''action_mio_to_fpr_module'', None, True, True),
      (chassis_fireos_prompt p, Act ''sendline(exit)'', None, True, True),
      (chassis_expert_cli p, Act ''sendline(exit)'', None, True, True),
      (chassis_sudo_prompt p, Act ''sendline(exit)'', None, True, True),
      ([CHR 0x5C] @ ''x07'', Act (''sendline('' @ [CHR 0x03] @ '')''), None, True, True)]"

definition pattern_of :: "statement \<Rightarrow> string" where
  "pattern_of r = fst r"

definition action_of :: "statement \<Rightarrow> action" where
  "action_of r = fst (snd r)"

definition loop_continue :: "statement \<Rightarrow> bool" where
  "loop_continue r = fst (snd (snd (snd r)))"

text \<open>
  Modelled from the spec: \<open>Dialog.process\<close>, the dialog engine, is not among the
  sources. Section 4.1: the engine reads from the stream until one rule's pattern
  matches the accumulated buffer; on every new chunk of input it tests the rules in
  declaration order against the buffer, so that an earlier rule shadows a later one
  that would also match. On a match it executes the rule's action; with
  \<open>continue-after-match\<close> it resumes waiting, otherwise the run returns with this rule
  as the result. If the timeout elapses with no rule matched the run fails with
  \<open>DialogTimeout\<close>, which carries the unmatched buffer. The stream is the list of the
  chunks that arrive before the timeout; \<open>search pattern buffer\<close> is the matching of
  one pattern, which gives the buffer that is left after the match.
\<close>

datatype dialog_result = MatchResult nat string | DialogTimeout string

fun first_match ::
  "(string \<Rightarrow> string \<Rightarrow> string option) \<Rightarrow> statement list \<Rightarrow> string \<Rightarrow> (nat \<times> string) option" where
  \<comment> \<open>the first rule in list order whose pattern matches the buffer\<close>
  "first_match search [] buf = None"
| "first_match search (r # rs) buf =
     (case search (pattern_of r) buf of
        Some rest \<Rightarrow> Some (0, rest)
      | None \<Rightarrow> map_option (\<lambda>(k, rest). (Suc k, rest)) (first_match search rs buf))"

fun dialog_run ::
  "(string \<Rightarrow> string \<Rightarrow> string option) \<Rightarrow> statement list \<Rightarrow> string \<Rightarrow> string list \<Rightarrow>
     (nat \<times> action) list \<times> dialog_result" where
  \<comment> \<open>the rules whose actions were executed, in order, and the result\<close>
  "dialog_run search d buf [] = ([], DialogTimeout buf)"
| "dialog_run search d buf (chunk # chunks) =
     (case first_match search d (buf @ chunk) of
        None \<Rightarrow> dialog_run search d (buf @ chunk) chunks
      | Some (k, rest) \<Rightarrow>
          if loop_continue (d ! k)
          then (case dialog_run search d rest chunks of
                  (executed, result) \<Rightarrow> ((k, action_of (d ! k)) # executed, result))
          else ([(k, action_of (d ! k))], MatchResult k (buf @ chunk)))"

section \<open>Observations and sample runs\<close>

definition sent_download :: "event \<Rightarrow> bool" where
  \<comment> \<open>a \<open>download image ...\<close> command written to the console\<close>
  "sent_download ev = (case ev of Sendline s \<Rightarrow> startswith ''download image '' s | _ \<Rightarrow> False)"

definition sent_downloads :: "world \<Rightarrow> event list" where
  "sent_downloads w = filter sent_download (trace w)"

definition sample_patterns :: patterns where
  "sample_patterns =
     \<lparr>login_username = ''admin'', login_password = ''cisco123'', default_password = ''Admin123'',
      sudo_password = ''cisco123'', password_prompt = ''Password: '',
      prelogin_prompt = ''firepower login: '', fxos_prompt = ''firepower[^\<newline>]*# '',
      fireos_prompt = ''> '', expert_prompt = ''admin@firepower:~[$] '',
      sudo_prompt = ''root@firepower:~# '', rommon_prompt = ''rommon.*> '',
      local_mgmt_prompt = ''firepower[(]local-mgmt[)]# '', enable_prompt = ''firepower# '',
      disable_prompt = ''firepower> '', config_prompt = ''firepower[(]config[)]# ''\<rparr>"

definition sample_line :: world where
  \<comment> \<open>a line at the FXOS prompt, constructed with the default (empty) power bar\<close>
  "sample_line =
     \<lparr>current_state = ''fxos_state'', power_bar_server = Some [], power_bar_port = Some [],
      power_bar_user = ''admn'', power_bar_pwd = ''admn'', change_password_flag = False,
      constants_power_bar_server = [], constants_power_bar_port = [],
      constants_power_bar_user = ''admn'', constants_power_bar_pwd = ''admn'',
      metrics = [], trace = []\<rparr>"

definition quiet_env :: env where
  \<comment> \<open>every call succeeds and prints nothing; the clock stands still\<close>
  "quiet_env = \<lparr>reply = (\<lambda>h ev. Inr []), pdu = (\<lambda>h ev. Inr True), clock = (\<lambda>h. 0)\<rparr>"

definition dead_console_env :: env where
  \<comment> \<open>no dialog ever sees its prompt: every \<open>process\<close> raises\<close>
  "dead_console_env =
     \<lparr>reply = (\<lambda>h ev. case ev of Process d t \<Rightarrow> Inl TimeoutError | _ \<Rightarrow> Inr []),
      pdu = (\<lambda>h ev. Inr True), clock = (\<lambda>h. 0)\<rparr>"

text \<open>
  \<open>keeps f m\<close>: whenever the method \<open>m\<close> returns or raises, the observation \<open>f\<close> of
  the world is what it was before the call.
\<close>

definition keeps :: "(world \<Rightarrow> 'x) \<Rightarrow> 'a act \<Rightarrow> bool" where
  "keeps f m = (\<forall>w r w'. m w = Some (r, w') \<longrightarrow> f w' = f w)"

text \<open>
  \<open>returns m\<close>: whatever the world, the method \<open>m\<close> returns or raises.
\<close>

definition returns :: "'a act \<Rightarrow> bool" where
  "returns m = (\<forall>w. \<exists>r w'. m w = Some (r, w'))"


definition failing_env :: env where
  "failing_env =
     \<lparr>reply = (\<lambda>h ev. case ev of
          Execute_lines c \<Rightarrow>
            if contains ''show firmware package-version'' c then Inr ''Package-Vers: 6.2.0-100'' else Inr []
        | Execute c t \<Rightarrow>
            if startswith ''show download-task'' c then Inr ''State: Failed'' else Inr []
        | _ \<Rightarrow> Inr []),
      pdu = (\<lambda>h ev. Inr True), clock = (\<lambda>h. 0)\<rparr>"

definition sample_url :: string where
  "sample_url = ''scp://pxe@172.23.47.63:/tftpboot/cisco-ftd-fp2k.6.2.1-1088.SSA''"


text \<open>The seconds slept and the status polls in a console history.\<close>

fun sleep_seconds :: "event \<Rightarrow> nat" where
  "sleep_seconds (Sleep n) = n"
| "sleep_seconds _ = 0"

definition seconds_slept :: "event list \<Rightarrow> nat" where
  "seconds_slept h = sum_list (map sleep_seconds h)"

definition status_poll :: "event \<Rightarrow> bool" where
  "status_poll ev = (case ev of Execute c t \<Rightarrow> startswith ''show download-task '' c | _ \<Rightarrow> False)"

definition status_polls :: "event list \<Rightarrow> nat" where
  "status_polls h = length (filter status_poll h)"

text \<open>
  Devices for the polling loop, whose clock advances by the time slept. On the first the
  download is in state \<open>Downloading\<close> at three polls and \<open>Downloaded\<close> from the
  fourth on; on the second it stays \<open>Downloading\<close>; the third reports the state
  \<open>Unknown\<close> at every poll. The last device answers \<open>show version\<close> with version
  6.2.1, build 117.
\<close>

definition downloading_env :: env where
  "downloading_env =
     \<lparr>reply = (\<lambda>h ev. case ev of
          Execute c t \<Rightarrow>
            if startswith ''show download-task '' c
            then (if status_polls h < 3 then Inr ''State: Downloading'' else Inr ''State: Downloaded'')
            else Inr []
        | _ \<Rightarrow> Inr []),
      pdu = (\<lambda>h ev. Inr True), clock = (\<lambda>h. real (seconds_slept h))\<rparr>"

definition slow_env :: env where
  "slow_env =
     \<lparr>reply = (\<lambda>h ev. case ev of
          Execute c t \<Rightarrow> if startswith ''show download-task '' c then Inr ''State: Downloading'' else Inr []
        | _ \<Rightarrow> Inr []),
      pdu = (\<lambda>h ev. Inr True), clock = (\<lambda>h. real (seconds_slept h))\<rparr>"

definition stuck_env :: env where
  "stuck_env =
     \<lparr>reply = (\<lambda>h ev. case ev of
          Execute c t \<Rightarrow> if startswith ''show download-task '' c then Inr ''State: Unknown'' else Inr []
        | _ \<Rightarrow> Inr []),
      pdu = (\<lambda>h ev. Inr True), clock = (\<lambda>h. real (seconds_slept h))\<rparr>"

definition mismatch_env :: env where
  "mismatch_env =
     \<lparr>reply = (\<lambda>h ev. case ev of
          Execute c t \<Rightarrow>
            if c = ''show version''
            then Inr ''Model : Cisco Firepower 2130 Threat Defense (77) Version 6.2.1 (Build 117)''
            else Inr []
        | _ \<Rightarrow> Inr []),
      pdu = (\<lambda>h ev. Inr True), clock = (\<lambda>h. 0)\<rparr>"

text \<open>
  The console history of the polling loop. One pass of the loop sleeps 10 seconds and
  asks for the state of the download task; \<open>polled h0 i n\<close> is the history after \<open>n\<close>
  passes that started at the history \<open>h0\<close>, \<open>status_read e h0 i k\<close> the status that
  pass \<open>k\<close> (counted from 0) reads from the device's answer, and \<open>elapsed e h0 i n\<close>
  the time on the clock after \<open>n\<close> passes, from the start.
\<close>

definition status_query :: "string \<Rightarrow> event" where
  "status_query i = Execute (''show download-task '' @ i @ '' detail | grep State'') None"

definition poll_events :: "string \<Rightarrow> event list" where
  "poll_events i = [Sleep 10, Go_to ''fxos_state'', status_query i]"

definition polled :: "event list \<Rightarrow> string \<Rightarrow> nat \<Rightarrow> event list" where
  "polled h0 i n = h0 @ concat (replicate n (poll_events i))"

definition status_read :: "env \<Rightarrow> event list \<Rightarrow> string \<Rightarrow> nat \<Rightarrow> string option" where
  "status_read e h0 i k =
     (case reply e (polled h0 i k @ [Sleep 10, Go_to ''fxos_state'']) (status_query i) of
        Inl err \<Rightarrow> None
      | Inr out \<Rightarrow> re_search match_state out)"

definition elapsed :: "env \<Rightarrow> event list \<Rightarrow> string \<Rightarrow> nat \<Rightarrow> real" where
  "elapsed e h0 i n = clock e (polled h0 i n) - clock e h0"

text \<open>
  A baseline of a Firepower 2100 in local mode, and a device on which every step of it
  succeeds: the firmware is already 6.2.1-1088 and \<open>show version\<close> reports version
  6.2.1, build 1088.
\<close>

definition sample_args :: baseline_args where
  "sample_args =
     \<lparr>arg_tftp_server = ''172.23.47.63'',
      arg_rommon_file = ''/tftpboot/fxos-k8-fp2k-lfbff.82.2.1.386i.SSA'',
      arg_uut_hostname = ''firepower'', arg_uut_username = ''admin'',
      arg_uut_password = ''Admin123'', arg_uut_ip = ''10.0.0.2'',
      arg_uut_netmask = ''255.255.255.0'', arg_uut_gateway = ''10.0.0.1'',
      arg_dns_servers = ''10.0.0.3'', arg_search_domains = ''cisco.com'',
      arg_fxos_url = sample_url, arg_ftd_version = ''6.2.1-1088'',
      arg_file_server_password = ''pxe'', arg_power_cycle_flag = False,
      arg_mode = ''local'', arg_uut_ip6 = None, arg_uut_prefix = None,
      arg_uut_gateway6 = None, arg_manager = None, arg_manager_key = None,
      arg_manager_nat_id = None, arg_firewall_mode = ''routed'',
      arg_timeout = 3600, arg_reboot_timeout = 300\<rparr>"


text \<open>A Kp state machine with the sample prompts.\<close>

definition sample_ftd_dialogs :: ftd5500x_dialogs where
  "sample_ftd_dialogs =
     \<lparr>d_expert_to_disable = [], d_enable_to_disable = [], d_disable_to_enable = [],
      d_endisable_to_conft = [], disable_to_enable = []\<rparr>"

definition sample_statement :: statement where
  "sample_statement = (''Password: '', Act ''sendline(cisco123)'', None, True, False)"

definition kp_sm :: statemachine where
  "kp_sm = KpStateMachine_create sample_patterns sample_ftd_dialogs sample_statement"

text \<open>Sample: prompts without metacharacters, matched as literal text.\<close>

fun after_first :: "string \<Rightarrow> string \<Rightarrow> string option" where
  \<comment> \<open>what follows the first occurrence of a literal text\<close>
  "after_first pat [] = (if pat = [] then Some [] else None)"
| "after_first pat (c # cs) =
     (if startswith pat (c # cs) then Some (drop (length pat) (c # cs)) else after_first pat cs)"

definition sample_chassis_prompts :: chassis_prompts where
  "sample_chassis_prompts =
     \<lparr>chassis_fireos_prompt = ''> '', chassis_expert_cli = ''admin@firepower:~$ '',
      chassis_sudo_prompt = ''root@firepower:~# ''\<rparr>"

section \<open>Theorems\<close>

text \<open>
  C10. When the stored power-bar server and the \<open>power_bar_server\<close> argument are both
  empty or \<open>None\<close>, or the stored port and the \<open>power_bar_port\<close> argument are, then
  \<open>power_cycle\<close> returns \<open>None\<close> and leaves the world as it was: the power bar is not
  called (the console history is unchanged) and the stored settings are not modified.
\<close>

theorem power_cycle_invalid_returns_None:
  assumes "(\<not> truthy (power_bar_server w) \<and> \<not> truthy server) \<or>
           (\<not> truthy (power_bar_port w) \<and> \<not> truthy port)"
  shows "power_cycle e server port wait_on timeout user pwd w = Some (Inr None, w)"
  using assms by (auto simp: power_cycle_def ret_def)

theorem power_cycle_invalid_returns_None_witness:
  "\<not> truthy (power_bar_server sample_line) \<and> \<not> truthy None \<and>
   power_cycle quiet_env None None True 600 ''admn'' ''admn'' sample_line = Some (Inr None, sample_line)"
  using power_cycle_invalid_returns_None
    [of sample_line None None quiet_env True 600 "''admn''" "''admn''"]
  by (simp add: truthy_def sample_line_def)

subsection \<open>Frames: what a method leaves unchanged\<close>

lemma trace_record_event [simp]: "trace (record_event ev w) = trace w @ [ev]"
  by (simp add: record_event_def)

lemma current_state_record_event [simp]: "current_state (record_event ev w) = current_state w"
  by (simp add: record_event_def)

lemma keepsD: "keeps f m \<Longrightarrow> m w = Some (r, w') \<Longrightarrow> f w' = f w"
  by (auto simp: keeps_def)

lemma keeps_ret: "keeps f (ret x)"
  by (simp add: keeps_def ret_def)

lemma keeps_raise: "keeps f (raise err)"
  by (simp add: keeps_def raise_def)

lemma keeps_bnd: 
  assumes "keeps f m" and "\<And>x. keeps f (g x)"
  shows "keeps f (bnd m g)"
  unfolding keeps_def
proof (intro allI impI)
  fix w r w' assume h: "bnd m g w = Some (r, w')"
  show "f w' = f w"
  proof (cases "m w")
    case None
    with h show ?thesis by (simp add: bnd_def)
  next
    case (Some a)
    obtain r1 w1 where a: "a = (r1, w1)" by (cases a)
    have k1: "f w1 = f w" using assms(1) Some a by (auto dest: keepsD)
    show ?thesis
    proof (cases r1)
      case (Inl err)
      with h Some a k1 show ?thesis by (simp add: bnd_def)
    next
      case (Inr x)
      with h Some a have "g x w1 = Some (r, w')" by (simp add: bnd_def)
      then have "f w' = f w1" by (rule keepsD [OF assms(2)])
      with k1 show ?thesis by simp
    qed
  qed
qed

lemma keeps_thn: "keeps f m \<Longrightarrow> keeps f n \<Longrightarrow> keeps f (thn m n)"
  unfolding thn_def by (rule keeps_bnd)

lemma keeps_if: "(c \<Longrightarrow> keeps f m) \<Longrightarrow> (\<not> c \<Longrightarrow> keeps f n) \<Longrightarrow> keeps f (if c then m else n)"
  by simp

lemma keeps_for_each: "(\<And>x. keeps f (body x)) \<Longrightarrow> keeps f (for_each body xs)"
  by (induction xs) (auto intro: keeps_ret keeps_thn)

lemma sent_downloads_record_event:
  "sent_downloads (record_event ev w) = sent_downloads w @ (if sent_download ev then [ev] else [])"
  by (simp add: sent_downloads_def record_event_def)

lemma sent_downloads_current_state [simp]:
  "sent_downloads (w\<lparr>current_state := s\<rparr>) = sent_downloads w"
  by (simp add: sent_downloads_def)

lemma keeps_sd_call: "\<not> sent_download ev \<Longrightarrow> keeps sent_downloads (call e ev)"
  by (auto simp: keeps_def call_def sent_downloads_record_event split: sum.splits)

lemma keeps_sd_go_to: "keeps sent_downloads (go_to e st)"
  by (auto simp: keeps_def go_to_def sent_downloads_record_event sent_download_def split: sum.splits)

lemma keeps_sd_execute: "keeps sent_downloads (execute e c t)"
  unfolding execute_def by (rule keeps_sd_call) (simp add: sent_download_def)

lemma keeps_sd_execute_lines: "keeps sent_downloads (execute_lines e c)"
  unfolding execute_lines_def by (rule keeps_sd_call) (simp add: sent_download_def)

lemma keeps_sd_process: "keeps sent_downloads (process e d t)"
  unfolding process_def by (rule keeps_sd_call) (simp add: sent_download_def)

lemma keeps_sd_sleep: "keeps sent_downloads (sleep n)"
  by (auto simp: keeps_def sleep_def sent_downloads_record_event sent_download_def)

lemma keeps_sd_sendline: "\<not> startswith ''download image '' s \<Longrightarrow> keeps sent_downloads (sendline s)"
  by (auto simp: keeps_def sendline_def sent_downloads_record_event sent_download_def)

lemmas keeps_sd = keeps_ret keeps_raise keeps_bnd keeps_thn keeps_for_each keeps_sd_go_to
  keeps_sd_execute keeps_sd_execute_lines keeps_sd_process keeps_sd_sleep

lemma keeps_sd_is_firmware_fp2k_ready: "keeps sent_downloads (is_firmware_fp2k_ready e v)"
  unfolding is_firmware_fp2k_ready_def
  by (intro keeps_sd) (auto split: list.splits intro: keeps_sd)

lemma keeps_sd_get_packages: "keeps sent_downloads (get_packages e)"
  unfolding get_packages_def Let_def
  by (intro keeps_sd) (auto split: sum.splits intro: keeps_sd)

lemma keeps_sd_get_download_status: "keeps sent_downloads (get_download_status e i)"
  unfolding get_download_status_def
  by (intro keeps_sd) (auto split: option.splits intro: keeps_sd)

lemma keeps_sd_full_path_of: "keeps sent_downloads (full_path_of u)"
  unfolding full_path_of_def
  by (auto split: option.splits intro: keeps_sd)

lemma wait_loop_sent_downloads:
  assumes "wait_loop e i u s el w = Some y"
  shows "sent_downloads (snd y) = sent_downloads w"
proof (rule wait_loop.raw_induct
    [where P = "\<lambda>e i u s el w y. sent_downloads (snd y) = sent_downloads w", OF _ assms],
    goal_cases)
  case (1 loop e i u s el w y)
  have k: "keeps sent_downloads (thn (sleep 10) (get_download_status e i))"
    by (intro keeps_sd keeps_sd_get_download_status)
  from "1"(2) show ?case
    by (auto split: if_splits option.splits sum.splits prod.splits
        dest!: keepsD [OF k] "1"(1))
qed


subsection \<open>Waiting for rommon\<close>

lemma wait_for_rommon_success:
  assumes "reply e (trace w) (Process (rommon_dialog p) (Some timeout)) = Inr out"
  shows "\<exists>w'. wait_for_rommon e p timeout w = Some (Inr (), w') \<and>
              current_state w' = ''rommon_state''"
  using assms
  by (simp add: wait_for_rommon_def thn_def bnd_def process_def call_def update_cur_state_def)

text \<open>
  C7. If the dialog of \<open>wait_for_rommon\<close> raises (it times out), \<open>wait_for_rommon\<close>
  raises the same error and the current state of the state machine is what it was
  before the call: \<open>update_cur_state('rommon_state')\<close> runs only after the dialog has
  completed.
\<close>

theorem wait_for_rommon_timeout_keeps_state:
  assumes "reply e (trace w) (Process (rommon_dialog p) (Some timeout)) = Inl err"
  shows "\<exists>w'. wait_for_rommon e p timeout w = Some (Inl err, w') \<and>
              current_state w' = current_state w"
  using assms
  by (simp add: wait_for_rommon_def thn_def bnd_def process_def call_def)

theorem wait_for_rommon_timeout_keeps_state_witness:
  "\<exists>w'. wait_for_rommon dead_console_env sample_patterns 300 sample_line =
           Some (Inl TimeoutError, w') \<and>
         current_state w' = ''fxos_state''"
  using wait_for_rommon_timeout_keeps_state
    [of dead_console_env sample_line sample_patterns 300 TimeoutError]
  by (simp add: dead_console_env_def sample_line_def)

subsection \<open>Downloading the bundle package\<close>












lemma bnd_Inr_D:
  assumes "bnd m f w = Some (Inr y, w')"
  shows "\<exists>x w1. m w = Some (Inr x, w1) \<and> f x w1 = Some (Inr y, w')"
  using assms by (auto simp: bnd_def split: option.splits sum.splits prod.splits)

lemma thn_Inr_D:
  assumes "thn m n w = Some (Inr y, w')"
  shows "\<exists>x w1. m w = Some (Inr x, w1) \<and> n w1 = Some (Inr y, w')"
  using assms unfolding thn_def by (rule bnd_Inr_D)

lemma keeps_sd_wait_till_download_complete:
  "keeps sent_downloads (wait_till_download_complete e u t)"
  unfolding wait_till_download_complete_def
proof (intro keeps_thn keeps_bnd keeps_sd_go_to keeps_sd_full_path_of)
  fix x
  show "keeps sent_downloads (\<lambda>w. wait_loop e (basename x) t (clock e (trace w)) 0 w)"
    unfolding keeps_def using wait_loop_sent_downloads by fastforce
qed

lemma download_image_sends_once:
  assumes "download_image e p fxos_url pwd w = Some (Inr st, w')"
  shows "sent_downloads w' = sent_downloads w @ [Sendline (''download image '' @ fxos_url)]"
proof -
  from assms obtain x1 w1 where
    1: "execute_lines e ''\<newline>                top\<newline>                scope firmware\<newline>                '' w
          = Some (Inr x1, w1)" and
    r1: "thn (sendline (''download image '' @ fxos_url))
          (thn (sleep 5)
          (thn (process e (download_dialog p pwd) None)
               (wait_till_download_complete e fxos_url 1800))) w1 = Some (Inr st, w')"
    unfolding download_image_def by (blast dest: thn_Inr_D)
  from r1 obtain x2 w2 where
    2: "sendline (''download image '' @ fxos_url) w1 = Some (Inr x2, w2)" and
    r2: "thn (sleep 5)
          (thn (process e (download_dialog p pwd) None)
               (wait_till_download_complete e fxos_url 1800)) w2 = Some (Inr st, w')"
    by (blast dest: thn_Inr_D)
  have k: "keeps sent_downloads (thn (sleep 5)
          (thn (process e (download_dialog p pwd) None)
               (wait_till_download_complete e fxos_url 1800)))"
    by (intro keeps_sd keeps_sd_wait_till_download_complete)
  have "sent_downloads w1 = sent_downloads w"
    using keepsD [OF keeps_sd_execute_lines 1] .
  moreover have "sent_downloads w2 = sent_downloads w1 @ [Sendline (''download image '' @ fxos_url)]"
    using 2 by (auto simp: sendline_def sent_downloads_record_event sent_download_def)
  moreover have "sent_downloads w' = sent_downloads w2"
    using keepsD [OF k r2] .
  ultimately show ?thesis by simp
qed

lemma for_each_total:
  assumes "\<And>x w. \<exists>w'. body x w = Some (Inr (), w')"
  shows "\<exists>w'. for_each body xs w = Some (Inr (), w')"
proof (induction xs arbitrary: w)
  case Nil
  show ?case by (simp add: ret_def)
next
  case (Cons x xs)
  obtain w1 where "body x w = Some (Inr (), w1)" using assms by blast
  moreover obtain w2 where "for_each body xs w1 = Some (Inr (), w2)" using Cons.IH by blast
  ultimately show ?case by (simp add: thn_def bnd_def)
qed

lemma interrupt_and_wait_total:
  "\<exists>w'. interrupt_and_wait w = Some (Inr (), w') \<and> sent_downloads w' = sent_downloads w"
proof -
  have "\<exists>w'. interrupt_and_wait w = Some (Inr (), w')"
    unfolding interrupt_and_wait_def
    by (rule for_each_total) (simp add: thn_def bnd_def sendline_def sleep_def)
  moreover have "keeps sent_downloads interrupt_and_wait"
    unfolding interrupt_and_wait_def
    by (intro keeps_sd keeps_sd_sendline) simp
  ultimately show ?thesis by (auto dest: keepsD)
qed

lemma download_loop_always_failed:
  assumes failed: "\<And>w. \<exists>w'. download_image e p fxos_url pwd w = Some (Inr ''Failed'', w')"
  shows "\<exists>w'. download_loop e p fxos_url pwd (Suc n) w =
           Some (Inl (RuntimeError (''Download failed after '' @ str_nat MAX_RETRY_COUNT @
                     '' tries. Please check details again: '' @ fxos_url)), w') \<and>
         sent_downloads w' =
           sent_downloads w @ replicate (Suc n) (Sendline (''download image '' @ fxos_url))"
proof (induction n arbitrary: w)
  case 0
  obtain w1 where d: "download_image e p fxos_url pwd w = Some (Inr ''Failed'', w1)"
    using failed by blast
  show ?case
    by (subst download_loop.simps) (simp add: d download_image_sends_once [OF d])
next
  case (Suc n)
  obtain w1 where d: "download_image e p fxos_url pwd w = Some (Inr ''Failed'', w1)"
    using failed by blast
  obtain w2 where i: "interrupt_and_wait w1 = Some (Inr (), w2)"
    and i2: "sent_downloads w2 = sent_downloads w1"
    using interrupt_and_wait_total by blast
  obtain w' where l: "download_loop e p fxos_url pwd (Suc n) w2 =
           Some (Inl (RuntimeError (''Download failed after '' @ str_nat MAX_RETRY_COUNT @
                     '' tries. Please check details again: '' @ fxos_url)), w')"
    and l2: "sent_downloads w' =
           sent_downloads w2 @ replicate (Suc n) (Sendline (''download image '' @ fxos_url))"
    using Suc.IH by blast
  have "download_loop e p fxos_url pwd (Suc (Suc n)) w =
           Some (Inl (RuntimeError (''Download failed after '' @ str_nat MAX_RETRY_COUNT @
                     '' tries. Please check details again: '' @ fxos_url)), w')"
    by (subst download_loop.simps) (simp add: d i l)
  moreover have "sent_downloads w' =
      sent_downloads w @ replicate (Suc (Suc n)) (Sendline (''download image '' @ fxos_url))"
    using l2 i2 download_image_sends_once [OF d] by simp
  ultimately show ?case by blast
qed

text \<open>
  C3. When the firmware is not ready, the bundle is not among the packages and every
  pass of the retry loop ends with status \<open>Failed\<close>, \<open>download_ftd_fp2k\<close> writes
  \<open>download image <url>\<close> exactly \<open>MAX_RETRY_COUNT = 3\<close> times and then raises the
  \<open>RuntimeError\<close> that names the three tries and the URL.
\<close>

theorem download_ftd_fp2k_fails_after_three_tries:
  assumes g: "go_to e ''fxos_state'' w = Some (Inr (), w1)"
    and a: "is_firmware_fp2k_ready e ftd_version w1 = Some (Inr False, w2)"
    and b: "execute_lines e ''top\<newline>scope firmware'' w2 = Some (Inr out, w3)"
    and c: "get_packages e w3 = Some (Inr packages, w4)"
    and d: "strip (last (split_on CHR ''/'' fxos_url)) \<notin> set (map fst packages)"
    and failed: "\<And>w. \<exists>w'. download_image e p fxos_url pwd w = Some (Inr ''Failed'', w')"
  shows "\<exists>w'. download_ftd_fp2k e p fxos_url ftd_version pwd w =
           Some (Inl (RuntimeError
             (''Download failed after 3 tries. Please check details again: '' @ fxos_url)), w') \<and>
         sent_downloads w' = sent_downloads w @ replicate 3 (Sendline (''download image '' @ fxos_url))"
proof -
  have s: "sent_downloads w4 = sent_downloads w"
    using keepsD [OF keeps_sd_go_to g] keepsD [OF keeps_sd_is_firmware_fp2k_ready a]
      keepsD [OF keeps_sd_execute_lines b] keepsD [OF keeps_sd_get_packages c]
    by simp
  have e: "download_ftd_fp2k e p fxos_url ftd_version pwd w =
             download_loop e p fxos_url pwd (Suc 2) w4"
    using g a b c d
    by (simp add: download_ftd_fp2k_def thn_def bnd_def MAX_RETRY_COUNT_def numeral_3_eq_3)
  have m: "str_nat MAX_RETRY_COUNT = ''3''"
    by (simp add: MAX_RETRY_COUNT_def str_nat.simps)
  from download_loop_always_failed [OF failed, of 2 w4] s e m
  show ?thesis by (simp add: numeral_3_eq_3)
qed


lemma full_path_of_sample_url:
  "full_path_of sample_url w = Some (Inr ''/tftpboot/cisco-ftd-fp2k.6.2.1-1088.SSA'', w)"
  by (simp add: full_path_of_def sample_url_def match_scp_url_def isword_def ishost_def
      isdigit_def ispath_def ret_def)

lemma failing_env_always_failed:
  "\<exists>w'. download_image failing_env sample_patterns sample_url ''pxe'' w = Some (Inr ''Failed'', w')"
proof -
  have st: "\<And>i w. \<exists>w'. thn (sleep 10) (get_download_status failing_env i) w = Some (Inr ''Failed'', w')"
    by (simp add: thn_def bnd_def sleep_def get_download_status_def go_to_def execute_def
        call_def failing_env_def match_state_def isword_def ret_def)
  have wl: "\<And>i s w. \<exists>w'. wait_loop failing_env i 1800 s 0 w = Some (Inr ''Failed'', w')"
  proof -
    fix i s w
    obtain w' where "thn (sleep 10) (get_download_status failing_env i) w = Some (Inr ''Failed'', w')"
      using st by blast
    then show "\<exists>w'. wait_loop failing_env i 1800 s 0 w = Some (Inr ''Failed'', w')"
      by (subst wait_loop.simps) simp
  qed
  have wt: "\<And>w. \<exists>w'. wait_till_download_complete failing_env sample_url 1800 w = Some (Inr ''Failed'', w')"
    using wl
    by (simp add: wait_till_download_complete_def thn_def bnd_def go_to_def failing_env_def
        full_path_of_sample_url)
  obtain w0 where w0: "thn (execute_lines failing_env
            ''\<newline>                top\<newline>                scope firmware\<newline>                '')
    (thn (sendline (''download image '' @ sample_url))
    (thn (sleep 5)
         (process failing_env (download_dialog sample_patterns ''pxe'') None))) w = Some (Inr [], w0)"
    by (simp add: thn_def bnd_def execute_lines_def call_def failing_env_def sendline_def
        sleep_def process_def)
  obtain w' where "wait_till_download_complete failing_env sample_url 1800 w0 = Some (Inr ''Failed'', w')"
    using wt by blast
  with w0 show ?thesis
    by (auto simp: download_image_def thn_def bnd_def split: option.splits sum.splits prod.splits)
qed

theorem download_ftd_fp2k_fails_after_three_tries_witness:
  "\<exists>w'. download_ftd_fp2k failing_env sample_patterns sample_url ''6.2.1-1088'' ''pxe'' sample_line =
           Some (Inl (RuntimeError
             (''Download failed after 3 tries. Please check details again: '' @ sample_url)), w') \<and>
         sent_downloads w' = replicate 3 (Sendline (''download image '' @ sample_url))"
proof -
  define w1 where "w1 = snd (the (go_to failing_env ''fxos_state'' sample_line))"
  define w2 where "w2 = snd (the (is_firmware_fp2k_ready failing_env ''6.2.1-1088'' w1))"
  define w3 where "w3 = snd (the (execute_lines failing_env ''top\<newline>scope firmware'' w2))"
  define w4 where "w4 = snd (the (get_packages failing_env w3))"
  have g: "go_to failing_env ''fxos_state'' sample_line = Some (Inr (), w1)"
    by (simp add: w1_def go_to_def failing_env_def)
  have a: "is_firmware_fp2k_ready failing_env ''6.2.1-1088'' w1 = Some (Inr False, w2)"
    by (simp add: w2_def is_firmware_fp2k_ready_def go_to_def execute_lines_def call_def
        failing_env_def thn_def bnd_def ret_def strip_def isspace_def)
  have b: "execute_lines failing_env ''top\<newline>scope firmware'' w2 = Some (Inr [], w3)"
    by (simp add: w3_def execute_lines_def call_def failing_env_def)
  have c: "get_packages failing_env w3 = Some (Inr [], w4)"
    by (simp add: w4_def get_packages_def go_to_def execute_lines_def execute_def call_def
        failing_env_def thn_def bnd_def ret_def strip_def)
  have d: "strip (last (split_on CHR ''/'' sample_url)) \<notin> set (map fst [])"
    by simp
  from download_ftd_fp2k_fails_after_three_tries
    [OF g a b c d failing_env_always_failed]
  show ?thesis
    by (simp add: sent_downloads_def sample_line_def)
qed

subsection \<open>The polling loop\<close>

lemma seconds_slept_append [simp]:
  "seconds_slept (h @ k) = seconds_slept h + seconds_slept k"
  by (simp add: seconds_slept_def)

lemma status_polls_append [simp]:
  "status_polls (h @ k) = status_polls h + status_polls k"
  by (simp add: status_polls_def)

lemma go_to_Inr_trace:
  assumes "go_to e st w = Some (Inr u, w')"
  shows "trace w' = trace w @ [Go_to st]"
  using assms by (auto simp: go_to_def split: sum.splits)

lemma poll_Inr_trace:
  assumes "thn (sleep 10) (get_download_status e i) w = Some (Inr st, w')"
  shows "trace w' = trace w @ [Sleep 10, Go_to ''fxos_state'',
           Execute (''show download-task '' @ i @ '' detail | grep State'') None]"
  using assms
  by (auto simp: thn_def bnd_def sleep_def get_download_status_def go_to_def execute_def
      call_def ret_def raise_def split: sum.splits option.splits)

lemma poll_counts:
  assumes "thn (sleep 10) (get_download_status e i) w = Some (Inr st, w')"
  shows "status_polls (trace w') = status_polls (trace w) + 1"
    and "seconds_slept (trace w') = seconds_slept (trace w) + 10"
  using poll_Inr_trace [OF assms]
  by (simp_all add: status_polls_def status_poll_def seconds_slept_def)

text \<open>
  C5. If the status is \<open>Downloading\<close> at the first three polls and \<open>Downloaded\<close> at the
  fourth, and the elapsed time read after each of the first three polls is below the
  deadline of 1800 seconds, then \<open>_wait_till_download_complete\<close> returns
  \<open>Downloaded\<close> after exactly four status polls and four sleeps of 10 seconds (40 seconds
  slept): it does not return before the fourth poll.
\<close>

theorem wait_till_download_complete_fourth_poll:
  assumes g: "go_to e ''fxos_state'' w = Some (Inr (), w0)"
    and u: "full_path_of file_url w0 = Some (Inr full_path, w0)"
    and p1: "thn (sleep 10) (get_download_status e (basename full_path)) w0 = Some (Inr ''Downloading'', w1)"
    and p2: "thn (sleep 10) (get_download_status e (basename full_path)) w1 = Some (Inr ''Downloading'', w2)"
    and p3: "thn (sleep 10) (get_download_status e (basename full_path)) w2 = Some (Inr ''Downloading'', w3)"
    and p4: "thn (sleep 10) (get_download_status e (basename full_path)) w3 = Some (Inr ''Downloaded'', w4)"
    and t1: "clock e (trace w1) - clock e (trace w0) < 1800"
    and t2: "clock e (trace w2) - clock e (trace w0) < 1800"
    and t3: "clock e (trace w3) - clock e (trace w0) < 1800"
  shows "wait_till_download_complete e file_url 1800 w = Some (Inr ''Downloaded'', w4) \<and>
         status_polls (trace w4) = status_polls (trace w) + 4 \<and>
         seconds_slept (trace w4) = seconds_slept (trace w) + 40"
proof -
  let ?s = "clock e (trace w0)"
  let ?i = "basename full_path"
  have l4: "wait_loop e ?i 1800 ?s (clock e (trace w3) - ?s) w3 = Some (Inr ''Downloaded'', w4)"
    by (subst wait_loop.simps) (simp add: t3 p4)
  have l3: "wait_loop e ?i 1800 ?s (clock e (trace w2) - ?s) w2 = Some (Inr ''Downloaded'', w4)"
    by (subst wait_loop.simps) (simp add: t2 p3 l4)
  have l2: "wait_loop e ?i 1800 ?s (clock e (trace w1) - ?s) w1 = Some (Inr ''Downloaded'', w4)"
    by (subst wait_loop.simps) (simp add: t1 p2 l3)
  have l1: "wait_loop e ?i 1800 ?s 0 w0 = Some (Inr ''Downloaded'', w4)"
    by (subst wait_loop.simps) (simp add: p1 l2)
  have r: "wait_till_download_complete e file_url 1800 w = Some (Inr ''Downloaded'', w4)"
    by (simp add: wait_till_download_complete_def thn_def bnd_def g u l1)
  have "trace w0 = trace w @ [Go_to ''fxos_state'']"
    using g by (rule go_to_Inr_trace)
  then have c0: "status_polls (trace w0) = status_polls (trace w)"
    "seconds_slept (trace w0) = seconds_slept (trace w)"
    by (simp_all add: status_polls_def status_poll_def seconds_slept_def)
  show ?thesis
    using r c0 poll_counts [OF p1] poll_counts [OF p2] poll_counts [OF p3] poll_counts [OF p4]
    by simp
qed

theorem wait_till_download_complete_fourth_poll_witness:
  "\<exists>w4. wait_till_download_complete downloading_env sample_url 1800 sample_line
           = Some (Inr ''Downloaded'', w4) \<and>
         status_polls (trace w4) = 4 \<and> seconds_slept (trace w4) = 40"
proof -
  let ?i = "''cisco-ftd-fp2k.6.2.1-1088.SSA''"
  define w0 where "w0 = snd (the (go_to downloading_env ''fxos_state'' sample_line))"
  define w1 where "w1 = snd (the (thn (sleep 10) (get_download_status downloading_env ?i) w0))"
  define w2 where "w2 = snd (the (thn (sleep 10) (get_download_status downloading_env ?i) w1))"
  define w3 where "w3 = snd (the (thn (sleep 10) (get_download_status downloading_env ?i) w2))"
  define w4 where "w4 = snd (the (thn (sleep 10) (get_download_status downloading_env ?i) w3))"
  note defs = thn_def bnd_def sleep_def get_download_status_def go_to_def execute_def call_def
    ret_def downloading_env_def match_state_def isword_def status_polls_def status_poll_def
    seconds_slept_def sample_line_def
  have g: "go_to downloading_env ''fxos_state'' sample_line = Some (Inr (), w0)"
    by (simp add: w0_def go_to_def downloading_env_def)
  have t0: "trace w0 = [Go_to ''fxos_state'']"
    by (simp add: w0_def go_to_def downloading_env_def sample_line_def)
  have u: "full_path_of sample_url w0 = Some (Inr ''/tftpboot/cisco-ftd-fp2k.6.2.1-1088.SSA'', w0)"
    by (rule full_path_of_sample_url)
  have b: "basename ''/tftpboot/cisco-ftd-fp2k.6.2.1-1088.SSA'' = ?i"
    by (simp add: basename_def)
  have p1: "thn (sleep 10) (get_download_status downloading_env ?i) w0 = Some (Inr ''Downloading'', w1)"
    by (simp add: w1_def t0 defs)
  have t1: "trace w1 = trace w0 @ [Sleep 10, Go_to ''fxos_state'',
           Execute (''show download-task '' @ ?i @ '' detail | grep State'') None]"
    using p1 by (rule poll_Inr_trace)
  have p2: "thn (sleep 10) (get_download_status downloading_env ?i) w1 = Some (Inr ''Downloading'', w2)"
    by (simp add: w2_def t0 t1 defs)
  have t2: "trace w2 = trace w1 @ [Sleep 10, Go_to ''fxos_state'',
           Execute (''show download-task '' @ ?i @ '' detail | grep State'') None]"
    using p2 by (rule poll_Inr_trace)
  have p3: "thn (sleep 10) (get_download_status downloading_env ?i) w2 = Some (Inr ''Downloading'', w3)"
    by (simp add: w3_def t0 t1 t2 defs)
  have t3: "trace w3 = trace w2 @ [Sleep 10, Go_to ''fxos_state'',
           Execute (''show download-task '' @ ?i @ '' detail | grep State'') None]"
    using p3 by (rule poll_Inr_trace)
  have p4: "thn (sleep 10) (get_download_status downloading_env ?i) w3 = Some (Inr ''Downloaded'', w4)"
    by (simp add: w4_def t0 t1 t2 t3 defs)
  have c1: "clock downloading_env (trace w1) - clock downloading_env (trace w0) < 1800"
    by (simp add: t0 t1 downloading_env_def seconds_slept_def)
  have c2: "clock downloading_env (trace w2) - clock downloading_env (trace w0) < 1800"
    by (simp add: t0 t1 t2 downloading_env_def seconds_slept_def)
  have c3: "clock downloading_env (trace w3) - clock downloading_env (trace w0) < 1800"
    by (simp add: t0 t1 t2 t3 downloading_env_def seconds_slept_def)
  have q1: "thn (sleep 10) (get_download_status downloading_env
              (basename ''/tftpboot/cisco-ftd-fp2k.6.2.1-1088.SSA'')) w0 = Some (Inr ''Downloading'', w1)"
    by (simp only: b) (rule p1)
  have q2: "thn (sleep 10) (get_download_status downloading_env
              (basename ''/tftpboot/cisco-ftd-fp2k.6.2.1-1088.SSA'')) w1 = Some (Inr ''Downloading'', w2)"
    by (simp only: b) (rule p2)
  have q3: "thn (sleep 10) (get_download_status downloading_env
              (basename ''/tftpboot/cisco-ftd-fp2k.6.2.1-1088.SSA'')) w2 = Some (Inr ''Downloading'', w3)"
    by (simp only: b) (rule p3)
  have q4: "thn (sleep 10) (get_download_status downloading_env
              (basename ''/tftpboot/cisco-ftd-fp2k.6.2.1-1088.SSA'')) w3 = Some (Inr ''Downloaded'', w4)"
    by (simp only: b) (rule p4)
  from wait_till_download_complete_fourth_poll [OF g u q1 q2 q3 q4 c1 c2 c3]
  show ?thesis
    by (simp add: sample_line_def status_polls_def seconds_slept_def)
qed


lemma poll_cases:
  "\<exists>r w'. thn (sleep 10) (get_download_status e i) w = Some (r, w') \<and>
     (case r of
        Inl err \<Rightarrow> err = AttributeError \<or> (\<exists>h ev. reply e h ev = Inl err)
      | Inr st \<Rightarrow>
          trace w' = trace w @ [Sleep 10, Go_to ''fxos_state'',
             Execute (''show download-task '' @ i @ '' detail | grep State'') None] \<and>
          (\<exists>h out. reply e h (Execute (''show download-task '' @ i @ '' detail | grep State'') None)
                      = Inr out \<and> re_search match_state out = Some st))"
proof -
  let ?cmd = "Execute (''show download-task '' @ i @ '' detail | grep State'') None"
  let ?poll = "thn (sleep 10) (get_download_status e i)"
  note defs = thn_def bnd_def sleep_def get_download_status_def go_to_def execute_def
    call_def ret_def raise_def
  show ?thesis
  proof (cases "reply e (trace w @ [Sleep 10]) (Go_to ''fxos_state'')")
    case (Inl err)
    then have "\<exists>w'. ?poll w = Some (Inl err, w')" by (simp add: defs)
    with Inl show ?thesis by fastforce
  next
    case g: (Inr found)
    show ?thesis
    proof (cases "reply e (trace w @ [Sleep 10, Go_to ''fxos_state'']) ?cmd")
      case (Inl err)
      with g have "\<exists>w'. ?poll w = Some (Inl err, w')" by (simp add: defs)
      with Inl show ?thesis by fastforce
    next
      case x: (Inr out)
      show ?thesis
      proof (cases "re_search match_state out")
        case None
        with g x have "\<exists>w'. ?poll w = Some (Inl AttributeError, w')" by (simp add: defs)
        then show ?thesis by fastforce
      next
        case (Some st)
        with g x have "\<exists>w'. ?poll w = Some (Inr st, w') \<and> trace w' = trace w @ [Sleep 10, Go_to ''fxos_state'', ?cmd]"
          by (simp add: defs)
        with x Some show ?thesis by fastforce
      qed
    qed
  qed
qed

lemma wait_loop_returns:
  assumes sleeping: "\<And>h n. clock e h + real n \<le> clock e (h @ [Sleep n])"
    and forward: "\<And>h ev. clock e h \<le> clock e (h @ [ev])"
    and handled: "\<And>h ev out st. status_poll ev \<Longrightarrow> reply e h ev = Inr out \<Longrightarrow>
        re_search match_state out = Some st \<Longrightarrow>
        st = ''Downloaded'' \<or> st = ''Downloading'' \<or> st = ''Failed''"
    and inv: "el \<le> clock e (trace w) - s"
  shows "\<exists>r w'. wait_loop e i u s el w = Some (r, w') \<and>
     (r = Inr ''Downloaded'' \<or> r = Inr ''Failed'' \<or>
      r = Inl (RuntimeError (''download took too long: '' @ i)) \<or>
      r = Inl AttributeError \<or> (\<exists>h ev err. reply e h ev = Inl err \<and> r = Inl err))"
  using inv
proof (induction "nat \<lceil>u - el\<rceil>" arbitrary: el w rule: less_induct)
  case less
  show ?case
  proof (cases "el < u")
    case False
    then show ?thesis by (subst wait_loop.simps) simp
  next
    case True
    obtain r w' where p: "thn (sleep 10) (get_download_status e i) w = Some (r, w')"
      and pc: "(case r of
        Inl err \<Rightarrow> err = AttributeError \<or> (\<exists>h ev. reply e h ev = Inl err)
      | Inr st \<Rightarrow>
          trace w' = trace w @ [Sleep 10, Go_to ''fxos_state'',
             Execute (''show download-task '' @ i @ '' detail | grep State'') None] \<and>
          (\<exists>h out. reply e h (Execute (''show download-task '' @ i @ '' detail | grep State'') None)
                      = Inr out \<and> re_search match_state out = Some st))"
      using poll_cases by blast
    show ?thesis
    proof (cases r)
      case (Inl err)
      with p pc True show ?thesis
        by (subst wait_loop.simps) auto
    next
      case (Inr st)
      with pc have tr: "trace w' = trace w @ [Sleep 10, Go_to ''fxos_state'',
             Execute (''show download-task '' @ i @ '' detail | grep State'') None]"
        by simp
      from pc Inr obtain h out where
        "reply e h (Execute (''show download-task '' @ i @ '' detail | grep State'') None) = Inr out"
        and "re_search match_state out = Some st"
        by auto
      moreover have "status_poll (Execute (''show download-task '' @ i @ '' detail | grep State'') None)"
        by (simp add: status_poll_def)
      ultimately have st: "st = ''Downloaded'' \<or> st = ''Downloading'' \<or> st = ''Failed''"
        using handled by blast
      have "clock e (trace w) + 10 \<le> clock e (trace w @ [Sleep 10])"
        using sleeping [of "trace w" 10] by simp
      also have "\<dots> \<le> clock e ((trace w @ [Sleep 10]) @ [Go_to ''fxos_state''])"
        by (rule forward)
      also have "\<dots> \<le> clock e (((trace w @ [Sleep 10]) @ [Go_to ''fxos_state'']) @
             [Execute (''show download-task '' @ i @ '' detail | grep State'') None])"
        by (rule forward)
      finally have adv: "clock e (trace w) + 10 \<le> clock e (trace w')"
        by (simp add: tr)
      from st show ?thesis
      proof (elim disjE)
        assume "st = ''Downloaded''"
        with p Inr True show ?thesis by (subst wait_loop.simps) simp
      next
        assume "st = ''Failed''"
        with p Inr True show ?thesis by (subst wait_loop.simps) simp
      next
        assume d: "st = ''Downloading''"
        let ?el = "clock e (trace w') - s"
        have "el + 10 \<le> ?el" using adv less.prems by simp
        with True have "nat \<lceil>u - ?el\<rceil> < nat \<lceil>u - el\<rceil>" by linarith
        then have "\<exists>r w''. wait_loop e i u s ?el w' = Some (r, w'') \<and>
           (r = Inr ''Downloaded'' \<or> r = Inr ''Failed'' \<or>
            r = Inl (RuntimeError (''download took too long: '' @ i)) \<or>
            r = Inl AttributeError \<or> (\<exists>h ev err. reply e h ev = Inl err \<and> r = Inl err))"
          by (rule less.hyps) simp
        moreover have "wait_loop e i u s el w = wait_loop e i u s ?el w'"
          using p Inr True d by (subst wait_loop.simps) simp
        ultimately show ?thesis by simp
      qed
    qed
  qed
qed

lemma full_path_of_cases:
  "(\<exists>full_path. full_path_of file_url w = Some (Inr full_path, w)) \<or>
   full_path_of file_url w = Some (Inl (AssertionError (''unknown file_url: '' @ file_url)), w) \<or>
   full_path_of file_url w = Some (Inl (RuntimeError ''Incorrect file url download protocol''), w)"
  by (auto simp: full_path_of_def ret_def raise_def split: option.splits)

lemma wait_till_download_complete_exits:
  assumes sleeping: "\<And>h n. clock e h + real n \<le> clock e (h @ [Sleep n])"
    and forward: "\<And>h ev. clock e h \<le> clock e (h @ [ev])"
    and handled: "\<And>h ev out st. status_poll ev \<Longrightarrow> reply e h ev = Inr out \<Longrightarrow>
        re_search match_state out = Some st \<Longrightarrow>
        st = ''Downloaded'' \<or> st = ''Downloading'' \<or> st = ''Failed''"
  shows "\<exists>r w'. wait_till_download_complete e file_url wait_upto w = Some (r, w') \<and>
     (r = Inr ''Downloaded'' \<or> r = Inr ''Failed'' \<or>
      (\<exists>full_path. r = Inl (RuntimeError (''download took too long: '' @ basename full_path))) \<or>
      r = Inl (AssertionError (''unknown file_url: '' @ file_url)) \<or>
      r = Inl (RuntimeError ''Incorrect file url download protocol'') \<or>
      r = Inl AttributeError \<or> (\<exists>h ev err. reply e h ev = Inl err \<and> r = Inl err))"
proof (cases "reply e (trace w) (Go_to ''fxos_state'')")
  case (Inl err)
  then have "wait_till_download_complete e file_url wait_upto w =
      Some (Inl err, record_event (Go_to ''fxos_state'') w)"
    by (simp add: wait_till_download_complete_def thn_def bnd_def go_to_def)
  with Inl show ?thesis by blast
next
  case (Inr found)
  then obtain w0 where g: "go_to e ''fxos_state'' w = Some (Inr (), w0)"
    by (simp add: go_to_def)
  from full_path_of_cases [of file_url w0] show ?thesis
  proof (elim disjE exE)
    fix full_path
    assume u: "full_path_of file_url w0 = Some (Inr full_path, w0)"
    have "\<exists>r w'. wait_loop e (basename full_path) wait_upto (clock e (trace w0)) 0 w0 = Some (r, w') \<and>
     (r = Inr ''Downloaded'' \<or> r = Inr ''Failed'' \<or>
      r = Inl (RuntimeError (''download took too long: '' @ basename full_path)) \<or>
      r = Inl AttributeError \<or> (\<exists>h ev err. reply e h ev = Inl err \<and> r = Inl err))"
      by (rule wait_loop_returns [OF sleeping forward handled]) simp_all
    moreover have "wait_till_download_complete e file_url wait_upto w =
        wait_loop e (basename full_path) wait_upto (clock e (trace w0)) 0 w0"
      by (simp add: wait_till_download_complete_def thn_def bnd_def g u)
    ultimately show ?thesis by auto
  next
    assume "full_path_of file_url w0 =
        Some (Inl (AssertionError (''unknown file_url: '' @ file_url)), w0)"
    then show ?thesis
      by (simp add: wait_till_download_complete_def thn_def bnd_def g)
  next
    assume "full_path_of file_url w0 =
        Some (Inl (RuntimeError ''Incorrect file url download protocol''), w0)"
    then show ?thesis
      by (simp add: wait_till_download_complete_def thn_def bnd_def g)
  qed
qed


lemma polled_0 [simp]: "polled h0 i 0 = h0"
  by (simp add: polled_def)

lemma polled_Suc: "polled h0 i (Suc k) = polled h0 i k @ poll_events i"
proof -
  have "replicate (Suc k) (poll_events i) = replicate k (poll_events i) @ [poll_events i]"
    by (simp add: replicate_append_same)
  then show ?thesis by (simp add: polled_def del: replicate_Suc)
qed

lemma elapsed_0 [simp]: "elapsed e h0 i 0 = 0"
  by (simp add: elapsed_def)

lemma wait_loop_polls:
  assumes sleeping: "\<And>h n. clock e h + real n \<le> clock e (h @ [Sleep n])"
    and forward: "\<And>h ev. clock e h \<le> clock e (h @ [ev])"
    and go: "\<And>h. \<exists>found. reply e h (Go_to ''fxos_state'') = Inr found"
    and handled: "\<And>h. \<exists>out st. reply e h (status_query i) = Inr out \<and>
        re_search match_state out = Some st \<and>
        (st = ''Downloaded'' \<or> st = ''Downloading'' \<or> st = ''Failed'')"
    and tr: "trace w = polled h0 i k"
    and el: "el = elapsed e h0 i k"
    and b1: "\<forall>j<k. elapsed e h0 i j < u"
    and b2: "\<forall>j<k. status_read e h0 i j = Some ''Downloading''"
  shows "\<exists>n r w'. wait_loop e i u (clock e h0) el w = Some (r, w') \<and>
           trace w' = polled h0 i n \<and>
           (\<forall>j<n. elapsed e h0 i j < u) \<and>
           (\<forall>j. Suc j < n \<longrightarrow> status_read e h0 i j = Some ''Downloading'') \<and>
           ((\<exists>st. 0 < n \<and> status_read e h0 i (n - 1) = Some st \<and>
                  (st = ''Downloaded'' \<or> st = ''Failed'') \<and> r = Inr st) \<or>
            (\<forall>j<n. status_read e h0 i j = Some ''Downloading'') \<and> u \<le> elapsed e h0 i n \<and>
              r = Inl (RuntimeError (''download took too long: '' @ i)))"
  using tr el b1 b2
proof (induction "nat \<lceil>u - el\<rceil>" arbitrary: k w el rule: less_induct)
  case less
  note tr = less.prems(1) and el = less.prems(2) and b1 = less.prems(3) and b2 = less.prems(4)
  show ?case
  proof (cases "el < u")
    case False
    then have "wait_loop e i u (clock e h0) el w =
        Some (Inl (RuntimeError (''download took too long: '' @ i)), w)"
      by (subst wait_loop.simps) simp
    moreover have "u \<le> elapsed e h0 i k" using False el by simp
    moreover have "\<forall>j. Suc j < k \<longrightarrow> status_read e h0 i j = Some ''Downloading''"
      using b2 by simp
    ultimately show ?thesis using tr b1 b2 by blast
  next
    case True
    obtain found where g: "reply e (trace w @ [Sleep 10]) (Go_to ''fxos_state'') = Inr found"
      using go by blast
    obtain out st where x: "reply e (trace w @ [Sleep 10, Go_to ''fxos_state'']) (status_query i) = Inr out"
      and m: "re_search match_state out = Some st"
      and st: "st = ''Downloaded'' \<or> st = ''Downloading'' \<or> st = ''Failed''"
      using handled by blast
    define w1 where "w1 = record_event (status_query i)
        ((record_event (Go_to ''fxos_state'') (record_event (Sleep 10) w))
           \<lparr>current_state := ''fxos_state''\<rparr>)"
    have p: "thn (sleep 10) (get_download_status e i) w = Some (Inr st, w1)"
      using g x m
      by (simp add: thn_def bnd_def sleep_def get_download_status_def go_to_def execute_def
          call_def ret_def w1_def status_query_def)
    have tr1: "trace w1 = polled h0 i (Suc k)"
      by (simp add: w1_def tr polled_Suc poll_events_def)
    have sr: "status_read e h0 i k = Some st"
      using x m by (simp add: status_read_def tr)
    have b1': "\<forall>j<Suc k. elapsed e h0 i j < u"
      using b1 True el by (simp add: less_Suc_eq)
    show ?thesis
    proof (cases "st = ''Downloading''")
      case False
      with st have fin: "st = ''Downloaded'' \<or> st = ''Failed''" by simp
      then have "wait_loop e i u (clock e h0) el w = Some (Inr st, w1)"
        using p True by (subst wait_loop.simps) auto
      moreover have "0 < Suc k \<and> status_read e h0 i (Suc k - 1) = Some st \<and>
          (st = ''Downloaded'' \<or> st = ''Failed'') \<and> (Inr st :: error + string) = Inr st"
        using sr fin by simp
      moreover have "\<forall>j. Suc j < Suc k \<longrightarrow> status_read e h0 i j = Some ''Downloading''"
        using b2 by simp
      ultimately show ?thesis using tr1 b1' by blast
    next
      case d: True
      let ?el = "clock e (trace w1) - clock e h0"
      have el1: "?el = elapsed e h0 i (Suc k)" by (simp add: elapsed_def tr1)
      have "clock e (polled h0 i k) + 10 \<le> clock e (polled h0 i k @ [Sleep 10])"
        using sleeping [of "polled h0 i k" 10] by simp
      also have "\<dots> \<le> clock e ((polled h0 i k @ [Sleep 10]) @ [Go_to ''fxos_state''])"
        by (rule forward)
      also have "\<dots> \<le> clock e (((polled h0 i k @ [Sleep 10]) @ [Go_to ''fxos_state'']) @
             [status_query i])"
        by (rule forward)
      finally have "clock e (polled h0 i k) + 10 \<le> clock e (polled h0 i (Suc k))"
        by (simp add: polled_Suc poll_events_def)
      then have "el + 10 \<le> ?el" using el by (simp add: elapsed_def tr1)
      with True have dec: "nat \<lceil>u - ?el\<rceil> < nat \<lceil>u - el\<rceil>" by linarith
      have b2': "\<forall>j<Suc k. status_read e h0 i j = Some ''Downloading''"
        using b2 sr d by (simp add: less_Suc_eq)
      have "wait_loop e i u (clock e h0) el w = wait_loop e i u (clock e h0) ?el w1"
        using p True d by (subst wait_loop.simps) simp
      with less.hyps [OF dec tr1 el1 b1' b2'] show ?thesis by simp
    qed
  qed
qed

lemma full_path_of_pure:
  assumes "full_path_of file_url w = Some (Inr full_path, w)"
  shows "full_path_of file_url w0 = Some (Inr full_path, w0)"
  using assms
  by (auto simp: full_path_of_def ret_def raise_def split: if_splits option.splits)

text \<open>
  C4, as amended. Let the clock advance by at least the time slept and never run
  backwards, let every status check return one of \<open>Downloaded\<close>, \<open>Downloading\<close> and
  \<open>Failed\<close>, and let the URL check accept \<open>file_url\<close>. Then
  \<open>_wait_till_download_complete\<close> terminates, after some number \<open>n\<close> of polls, each of
  them made while the elapsed time read so far was below \<open>wait_upto\<close> and all but the
  last of them reading \<open>Downloading\<close>. Either the last poll read \<open>Downloaded\<close> or
  \<open>Failed\<close> and the call returns that status; or every poll read \<open>Downloading\<close>, the
  elapsed time read after the last of them has reached \<open>wait_upto\<close>, and the call raises
  \<open>RuntimeError\<close> \<open>download took too long: <image name>\<close>, which names the operation and
  the image, the base name of the URL's path, and carries no elapsed duration.
\<close>

theorem wait_till_download_complete_polls_until_done:
  assumes sleeping: "\<And>h n. clock e h + real n \<le> clock e (h @ [Sleep n])"
    and forward: "\<And>h ev. clock e h \<le> clock e (h @ [ev])"
    and go: "\<And>h. \<exists>found. reply e h (Go_to ''fxos_state'') = Inr found"
    and handled: "\<And>h. \<exists>out st. reply e h (status_query i) = Inr out \<and>
        re_search match_state out = Some st \<and>
        (st = ''Downloaded'' \<or> st = ''Downloading'' \<or> st = ''Failed'')"
    and url: "full_path_of file_url w = Some (Inr full_path, w)"
    and i: "i = basename full_path"
    and h0: "h0 = trace w @ [Go_to ''fxos_state'']"
  shows "\<exists>n r w'. wait_till_download_complete e file_url wait_upto w = Some (r, w') \<and>
           trace w' = polled h0 i n \<and>
           (\<forall>k<n. elapsed e h0 i k < wait_upto) \<and>
           (\<forall>k. Suc k < n \<longrightarrow> status_read e h0 i k = Some ''Downloading'') \<and>
           ((\<exists>st. 0 < n \<and> status_read e h0 i (n - 1) = Some st \<and>
                  (st = ''Downloaded'' \<or> st = ''Failed'') \<and> r = Inr st) \<or>
            (\<forall>k<n. status_read e h0 i k = Some ''Downloading'') \<and>
              wait_upto \<le> elapsed e h0 i n \<and>
              r = Inl (RuntimeError (''download took too long: '' @ i)))"
proof -
  obtain found where g0: "reply e (trace w) (Go_to ''fxos_state'') = Inr found"
    using go by blast
  define w0 where "w0 = (record_event (Go_to ''fxos_state'') w)\<lparr>current_state := ''fxos_state''\<rparr>"
  have g: "go_to e ''fxos_state'' w = Some (Inr (), w0)"
    by (simp add: go_to_def g0 w0_def)
  have t0: "trace w0 = polled h0 i 0" by (simp add: w0_def h0)
  have u: "full_path_of file_url w0 = Some (Inr full_path, w0)"
    using url by (rule full_path_of_pure)
  have "wait_till_download_complete e file_url wait_upto w =
      wait_loop e i wait_upto (clock e h0) 0 w0"
    using t0 by (simp add: wait_till_download_complete_def thn_def bnd_def g u i)
  moreover have "\<exists>n r w'. wait_loop e i wait_upto (clock e h0) 0 w0 = Some (r, w') \<and>
           trace w' = polled h0 i n \<and>
           (\<forall>j<n. elapsed e h0 i j < wait_upto) \<and>
           (\<forall>j. Suc j < n \<longrightarrow> status_read e h0 i j = Some ''Downloading'') \<and>
           ((\<exists>st. 0 < n \<and> status_read e h0 i (n - 1) = Some st \<and>
                  (st = ''Downloaded'' \<or> st = ''Failed'') \<and> r = Inr st) \<or>
            (\<forall>j<n. status_read e h0 i j = Some ''Downloading'') \<and>
              wait_upto \<le> elapsed e h0 i n \<and>
              r = Inl (RuntimeError (''download took too long: '' @ i)))"
    by (rule wait_loop_polls [OF sleeping forward go handled t0]) simp_all
  ultimately show ?thesis by simp
qed

lemma seconds_slept_polled:
  "seconds_slept (polled h0 i n) = seconds_slept h0 + 10 * n"
  by (induction n) (simp_all add: polled_Suc poll_events_def seconds_slept_def status_query_def)

theorem wait_till_download_complete_polls_until_done_witness:
  "\<exists>w'. wait_till_download_complete slow_env sample_url 20 sample_line =
           Some (Inl (RuntimeError ''download took too long: cisco-ftd-fp2k.6.2.1-1088.SSA''), w') \<and>
         trace w' = polled [Go_to ''fxos_state''] ''cisco-ftd-fp2k.6.2.1-1088.SSA'' 2"
proof -
  let ?i = "''cisco-ftd-fp2k.6.2.1-1088.SSA''"
  let ?h0 = "[Go_to ''fxos_state'']"
  have sleeping: "\<And>h n. clock slow_env h + real n \<le> clock slow_env (h @ [Sleep n])"
    by (simp add: slow_env_def seconds_slept_def)
  have forward: "\<And>h ev. clock slow_env h \<le> clock slow_env (h @ [ev])"
    by (simp add: slow_env_def seconds_slept_def)
  have go: "\<And>h. \<exists>found. reply slow_env h (Go_to ''fxos_state'') = Inr found"
    by (simp add: slow_env_def)
  have ms: "re_search match_state ''State: Downloading'' = Some ''Downloading''"
    by (simp add: match_state_def isword_def)
  have rp: "\<And>h. reply slow_env h (status_query ?i) = Inr ''State: Downloading''"
    by (simp add: slow_env_def status_query_def)
  have handled: "\<And>h. \<exists>out st. reply slow_env h (status_query ?i) = Inr out \<and>
        re_search match_state out = Some st \<and>
        (st = ''Downloaded'' \<or> st = ''Downloading'' \<or> st = ''Failed'')"
    using rp ms by blast
  have url: "full_path_of sample_url sample_line =
      Some (Inr ''/tftpboot/cisco-ftd-fp2k.6.2.1-1088.SSA'', sample_line)"
    by (rule full_path_of_sample_url)
  have i: "?i = basename ''/tftpboot/cisco-ftd-fp2k.6.2.1-1088.SSA''"
    by (simp add: basename_def)
  have h0: "?h0 = trace sample_line @ [Go_to ''fxos_state'']"
    by (simp add: sample_line_def)
  have sr: "\<And>k. status_read slow_env ?h0 ?i k = Some ''Downloading''"
    by (simp only: status_read_def rp sum.case ms)
  have el: "\<And>k. elapsed slow_env ?h0 ?i k = 10 * real k"
    by (simp add: elapsed_def slow_env_def seconds_slept_polled)
  from wait_till_download_complete_polls_until_done
    [OF sleeping forward go handled url i h0, of 20]
  obtain n r w' where
    run: "wait_till_download_complete slow_env sample_url 20 sample_line = Some (r, w')"
    and tr: "trace w' = polled ?h0 ?i n"
    and before: "\<forall>k<n. elapsed slow_env ?h0 ?i k < 20"
    and last: "(\<exists>st. 0 < n \<and> status_read slow_env ?h0 ?i (n - 1) = Some st \<and>
                  (st = ''Downloaded'' \<or> st = ''Failed'') \<and> r = Inr st) \<or>
            (\<forall>k<n. status_read slow_env ?h0 ?i k = Some ''Downloading'') \<and>
              20 \<le> elapsed slow_env ?h0 ?i n \<and>
              r = Inl (RuntimeError (''download took too long: '' @ ?i))"
    by blast
  from last have r: "r = Inl (RuntimeError (''download took too long: '' @ ?i))"
    and late: "20 \<le> elapsed slow_env ?h0 ?i n"
    by (auto simp: sr)
  from late have "2 \<le> n" by (simp add: el)
  moreover have "n \<le> 2"
  proof (rule ccontr)
    assume "\<not> n \<le> 2"
    then have "2 < n" by simp
    with before have "elapsed slow_env ?h0 ?i 2 < 20" by blast
    then show False by (simp add: el)
  qed
  ultimately have "n = 2" by simp
  with run tr r show ?thesis by simp
qed

text \<open>
  The loop assigns \<open>elapsed_time\<close> only when the status is \<open>Downloading\<close>: on a device
  that reports another state that is none of the three, the deadline is never reached.
\<close>

lemma wait_loop_stuck:
  assumes "wait_loop e i u s el w = Some y"
  shows "e = stuck_env \<longrightarrow> u \<le> el"
proof (rule wait_loop.raw_induct
    [where P = "\<lambda>e i u s el w y. e = stuck_env \<longrightarrow> u \<le> el", OF _ assms], goal_cases)
  case (1 loop e i u s el w y)
  show ?case
  proof
    assume e: "e = stuck_env"
    have p: "\<exists>w'. thn (sleep 10) (get_download_status stuck_env i) w = Some (Inr ''Unknown'', w')"
      by (simp add: thn_def bnd_def sleep_def get_download_status_def go_to_def execute_def
          call_def stuck_env_def match_state_def isword_def ret_def)
    show "u \<le> el"
    proof (rule ccontr)
      assume "\<not> u \<le> el"
      then have lt: "el < u" by simp
      from p obtain w' where
        "thn (sleep 10) (get_download_status stuck_env i) w = Some (Inr ''Unknown'', w')"
        by blast
      with "1"(2) lt e have "loop stuck_env i u s el w' = Some y" by simp
      with "1"(1) have "u \<le> el" by blast
      with lt show False by simp
    qed
  qed
qed

lemma wait_till_download_complete_stuck:
  "wait_till_download_complete stuck_env sample_url 1800 sample_line = None"
proof -
  obtain w0 where g: "go_to stuck_env ''fxos_state'' sample_line = Some (Inr (), w0)"
    by (simp add: go_to_def stuck_env_def)
  have "wait_loop stuck_env (basename ''/tftpboot/cisco-ftd-fp2k.6.2.1-1088.SSA'') 1800
          (clock stuck_env (trace w0)) 0 w0 = None"
  proof (cases "wait_loop stuck_env (basename ''/tftpboot/cisco-ftd-fp2k.6.2.1-1088.SSA'') 1800
          (clock stuck_env (trace w0)) 0 w0")
    case None
    then show ?thesis .
  next
    case (Some y)
    from wait_loop_stuck [OF Some] show ?thesis by simp
  qed
  then show ?thesis
    by (simp add: wait_till_download_complete_def thn_def bnd_def g full_path_of_sample_url)
qed

lemma wait_till_download_complete_slow_20:
  "map_option fst (wait_till_download_complete slow_env sample_url 20 sample_line) =
     Some (Inl (RuntimeError ''download took too long: cisco-ftd-fp2k.6.2.1-1088.SSA''))"
  by code_simp

lemma wait_till_download_complete_slow_40:
  "map_option fst (wait_till_download_complete slow_env sample_url 40 sample_line) =
     Some (Inl (RuntimeError ''download took too long: cisco-ftd-fp2k.6.2.1-1088.SSA''))"
  by code_simp

text \<open>
  C4 as stated fails. On the device that reports \<open>Unknown\<close> at every poll the call never
  returns; and the error raised at the deadline is the same text after 20 and after 40
  seconds: it names the image and carries no elapsed duration.
\<close>

theorem wait_till_download_complete_counterexample:
  "wait_till_download_complete stuck_env sample_url 1800 sample_line = None \<and>
   map_option fst (wait_till_download_complete slow_env sample_url 20 sample_line) =
     Some (Inl (RuntimeError ''download took too long: cisco-ftd-fp2k.6.2.1-1088.SSA'')) \<and>
   map_option fst (wait_till_download_complete slow_env sample_url 40 sample_line) =
     Some (Inl (RuntimeError ''download took too long: cisco-ftd-fp2k.6.2.1-1088.SSA''))"
  using wait_till_download_complete_stuck wait_till_download_complete_slow_20
    wait_till_download_complete_slow_40 by simp

subsection \<open>Validating the installed version\<close>

text \<open>
  C8. The check of \<open>validate_version\<close> is \<open>build in ftd_version and version in
  ftd_version\<close>, a test for substrings. A device that reports version 6.2.1, build 117 is
  validated against the target \<open>6.2.1-1177\<close>: no error is raised.
\<close>

theorem validate_version_accepts_other_build:
  "map_option fst (validate_version mismatch_env ''6.2.1-1177'' sample_line) = Some (Inr ())"
  by code_simp

subsection \<open>Metrics\<close>

lemma keeps_catch:
  assumes "keeps f m" and "\<And>err. keeps f (h err)"
  shows "keeps f (catch m h)"
  unfolding keeps_def
proof (intro allI impI)
  fix w r w' assume c: "catch m h w = Some (r, w')"
  show "f w' = f w"
  proof (cases "m w")
    case None
    with c show ?thesis by (simp add: catch_def)
  next
    case (Some a)
    obtain r1 w1 where a: "a = (r1, w1)" by (cases a)
    have k1: "f w1 = f w" using assms(1) Some a by (auto dest: keepsD)
    show ?thesis
    proof (cases r1)
      case (Inr x)
      with c Some a k1 show ?thesis by (simp add: catch_def)
    next
      case (Inl err)
      with c Some a have "h err w1 = Some (r, w')" by (simp add: catch_def)
      then have "f w' = f w1" by (rule keepsD [OF assms(2)])
      with k1 show ?thesis by simp
    qed
  qed
qed

lemma keeps_Let: "keeps f (g x) \<Longrightarrow> keeps f (Let x g)"
  by simp

lemma keeps_case_option:
  "keeps f n \<Longrightarrow> (\<And>x. keeps f (s x)) \<Longrightarrow> keeps f (case v of None \<Rightarrow> n | Some x \<Rightarrow> s x)"
  by (cases v) simp_all

lemma keeps_case_sum:
  "(\<And>x. keeps f (l x)) \<Longrightarrow> (\<And>x. keeps f (r x)) \<Longrightarrow>
   keeps f (case v of Inl x \<Rightarrow> l x | Inr x \<Rightarrow> r x)"
  by (cases v) simp_all

lemma keeps_case_list:
  "keeps f n \<Longrightarrow> (\<And>x xs. keeps f (c x xs)) \<Longrightarrow>
   keeps f (case v of [] \<Rightarrow> n | x # xs \<Rightarrow> c x xs)"
  by (cases v) simp_all

lemma keeps_case_error:
  "(\<And>x. keeps f (a x)) \<Longrightarrow> (\<And>x. keeps f (b x)) \<Longrightarrow> keeps f c \<Longrightarrow> keeps f d \<Longrightarrow>
   keeps f g \<Longrightarrow> keeps f h \<Longrightarrow> (\<And>x. keeps f (i x)) \<Longrightarrow> (\<And>x y. keeps f (k x y)) \<Longrightarrow>
   (\<And>x. keeps f (j x)) \<Longrightarrow>
   keeps f (case v of RuntimeError x \<Rightarrow> a x | AssertionError x \<Rightarrow> b x | IndexError \<Rightarrow> c
      | ValueError \<Rightarrow> d | AttributeError \<Rightarrow> g | TimeoutError \<Rightarrow> h
      | StateMachineError x \<Rightarrow> i x | NoPathError x y \<Rightarrow> k x y | OtherError x \<Rightarrow> j x)"
  by (cases v) simp_all

lemma metrics_record_event [simp]: "metrics (record_event ev w) = metrics w"
  by (simp add: record_event_def)

lemma keeps_m_call: "keeps metrics (call e ev)"
  by (auto simp: keeps_def call_def split: sum.splits)

lemma keeps_m_go_to: "keeps metrics (go_to e st)"
  by (auto simp: keeps_def go_to_def split: sum.splits)

lemma keeps_m_execute: "keeps metrics (execute e c t)"
  unfolding execute_def by (rule keeps_m_call)

lemma keeps_m_execute_lines: "keeps metrics (execute_lines e c)"
  unfolding execute_lines_def by (rule keeps_m_call)

lemma keeps_m_execute_only: "keeps metrics (execute_only e c)"
  unfolding execute_only_def by (rule keeps_m_call)

lemma keeps_m_process: "keeps metrics (process e d t)"
  unfolding process_def by (rule keeps_m_call)

lemma keeps_m_expect: "keeps metrics (expect e pat t)"
  unfolding expect_def by (rule keeps_m_call)

lemma keeps_m_sleep: "keeps metrics (sleep n)"
  by (auto simp: keeps_def sleep_def)

lemma keeps_m_sendline: "keeps metrics (sendline s)"
  by (auto simp: keeps_def sendline_def)

lemma keeps_m_update_cur_state: "keeps metrics (update_cur_state st)"
  by (auto simp: keeps_def update_cur_state_def)

lemma keeps_m_get_current_state: "keeps metrics get_current_state"
  by (auto simp: keeps_def get_current_state_def)

lemma keeps_m_get_change_password_flag: "keeps metrics get_change_password_flag"
  by (auto simp: keeps_def get_change_password_flag_def)

lemma keeps_m_set_change_password_flag: "keeps metrics (set_change_password_flag b)"
  by (auto simp: keeps_def set_change_password_flag_def)

lemma keeps_m_set_power_bar: "keeps metrics (set_power_bar a b c d)"
  by (auto simp: keeps_def set_power_bar_def)

lemma keeps_m_power_cycle_all_ports: "keeps metrics (power_cycle_all_ports e)"
  by (auto simp: keeps_def power_cycle_all_ports_def Let_def split: sum.splits)

lemmas keeps_m = keeps_ret keeps_raise keeps_bnd keeps_thn keeps_for_each keeps_catch keeps_if
  keeps_Let keeps_case_option keeps_case_sum keeps_case_list keeps_case_error
  keeps_m_call keeps_m_go_to keeps_m_execute keeps_m_execute_lines keeps_m_execute_only
  keeps_m_process keeps_m_expect keeps_m_sleep keeps_m_sendline keeps_m_update_cur_state
  keeps_m_get_current_state keeps_m_get_change_password_flag keeps_m_set_change_password_flag
  keeps_m_set_power_bar keeps_m_power_cycle_all_ports

lemma keeps_m_init_terminal: "keeps metrics (init_terminal e d)"
  unfolding init_terminal_def by (intro keeps_m)

lemma keeps_m_wait_until_device_on: "keeps metrics (wait_until_device_on e t)"
  unfolding wait_until_device_on_def by (intro keeps_m keeps_m_init_terminal)

lemma keeps_m_power_cycle: "keeps metrics (power_cycle e s p b t u pw)"
proof -
  have "keeps metrics
     (bnd (if truthy s \<or> truthy p then set_power_bar s p u pw else ret ())
          (\<lambda>_. bnd (power_cycle_all_ports e)
            (\<lambda>result. thn (if b then wait_until_device_on e t else ret ())
                         (ret (Some result)))))"
    by (intro keeps_m keeps_m_wait_until_device_on)
  then show ?thesis
    unfolding keeps_def power_cycle_def by (auto simp: ret_def split: if_splits)
qed

lemma keeps_m_wait_for_rommon: "keeps metrics (wait_for_rommon e p t)"
  unfolding wait_for_rommon_def by (intro keeps_m)

lemma keeps_m_power_cycle_goto_rommon: "keeps metrics (power_cycle_goto_rommon e p t s po u pw)"
  unfolding power_cycle_goto_rommon_def
  by (intro keeps_m keeps_m_power_cycle keeps_m_wait_for_rommon)

lemma keeps_m_format_goto_rommon: "keeps metrics (format_goto_rommon e p t)"
  unfolding format_goto_rommon_def by (intro keeps_m keeps_m_wait_for_rommon)

lemma keeps_m_change_password: "keeps metrics (change_password e p)"
  unfolding change_password_def by (intro keeps_m)

lemma keeps_m_rommon_factory_reset_and_format:
  "keeps metrics (rommon_factory_reset_and_format e p bt ft)"
  unfolding rommon_factory_reset_and_format_def
  by (intro keeps_m keeps_m_power_cycle_goto_rommon keeps_m_change_password
      keeps_m_init_terminal keeps_m_format_goto_rommon)

lemma keeps_m_expect_and_sendline: "keeps metrics (expect_and_sendline e es t)"
proof (induction es)
  case Nil
  show ?case by (simp add: keeps_ret)
next
  case (Cons x es)
  obtain a b c where x: "x = (a, b, c)" by (cases x)
  show ?case unfolding x expect_and_sendline.simps
    by (intro keeps_m Cons.IH)
qed

lemma keeps_m_ping_loop: "keeps metrics (ping_loop e s n)"
proof (induction n)
  case 0
  show ?case by (simp add: keeps_raise)
next
  case (Suc n)
  show ?case unfolding ping_loop.simps
    by (intro keeps_m Suc.IH)
qed

lemma keeps_m_rommon_configure: "keeps metrics (rommon_configure e a b c d f)"
  unfolding rommon_configure_def
  by (intro keeps_m keeps_m_expect_and_sendline keeps_m_ping_loop)

lemma keeps_m_rommon_tftp_download: "keeps metrics (rommon_tftp_download e p a b c t)"
  unfolding rommon_tftp_download_def
  by (intro keeps_m keeps_m_change_password)

lemma keeps_m_install_rommon_build_fp2k:
  "keeps metrics (install_rommon_build_fp2k e p a b c d f g h)"
  unfolding install_rommon_build_fp2k_def
  by (intro keeps_m keeps_m_format_goto_rommon keeps_m_rommon_factory_reset_and_format
      keeps_m_rommon_configure keeps_m_rommon_tftp_download keeps_m_init_terminal)

lemma keeps_m_is_firmware_fp2k_ready: "keeps metrics (is_firmware_fp2k_ready e v)"
  unfolding is_firmware_fp2k_ready_def
  by (intro keeps_m)

lemma keeps_m_get_packages: "keeps metrics (get_packages e)"
  unfolding get_packages_def
  by (intro keeps_m)

lemma keeps_m_get_download_status: "keeps metrics (get_download_status e i)"
  unfolding get_download_status_def
  by (intro keeps_m)

lemma keeps_m_full_path_of: "keeps metrics (full_path_of u)"
  unfolding full_path_of_def
  by (intro keeps_m)

lemma wait_loop_metrics:
  assumes "wait_loop e i u s el w = Some y"
  shows "metrics (snd y) = metrics w"
proof (rule wait_loop.raw_induct
    [where P = "\<lambda>e i u s el w y. metrics (snd y) = metrics w", OF _ assms],
    goal_cases)
  case (1 loop e i u s el w y)
  have k: "keeps metrics (thn (sleep 10) (get_download_status e i))"
    by (intro keeps_m keeps_m_get_download_status)
  from "1"(2) show ?case
    by (auto split: if_splits option.splits sum.splits prod.splits
        dest!: keepsD [OF k] "1"(1))
qed

lemma keeps_m_wait_till_download_complete:
  "keeps metrics (wait_till_download_complete e u t)"
  unfolding wait_till_download_complete_def
proof (intro keeps_thn keeps_bnd keeps_m_go_to keeps_m_full_path_of)
  fix x
  show "keeps metrics (\<lambda>w. wait_loop e (basename x) t (clock e (trace w)) 0 w)"
    unfolding keeps_def using wait_loop_metrics by fastforce
qed

lemma keeps_m_download_image: "keeps metrics (download_image e p u pw)"
  unfolding download_image_def
  by (intro keeps_m keeps_m_wait_till_download_complete)

lemma keeps_m_interrupt_and_wait: "keeps metrics interrupt_and_wait"
  unfolding interrupt_and_wait_def by (intro keeps_m)

lemma download_loop_metrics:
  assumes "download_loop e p u pw n w = Some y"
  shows "metrics (snd y) = metrics w"
proof (rule download_loop.raw_induct
    [where P = "\<lambda>e p u pw n w y. metrics (snd y) = metrics w", OF _ assms],
    goal_cases)
  case (1 loop e p u pw n w y)
  note k = keepsD [OF keeps_m_download_image] keepsD [OF keeps_m_interrupt_and_wait]
  from "1"(2) show ?case
    by (auto split: if_splits option.splits sum.splits prod.splits
        dest!: k "1"(1))
qed

lemma keeps_m_download_ftd_fp2k: "keeps metrics (download_ftd_fp2k e p u v pw)"
proof -
  have l: "\<And>n. keeps metrics (download_loop e p u pw n)"
    unfolding keeps_def using download_loop_metrics by fastforce
  show ?thesis
    unfolding download_ftd_fp2k_def
    by (intro keeps_m keeps_m_is_firmware_fp2k_ready keeps_m_get_packages l)
qed

lemma keeps_m_upgrade_bundle_package_fp2k:
  "keeps metrics (upgrade_bundle_package_fp2k e p a b c d f g h i j k l m n t)"
  unfolding upgrade_bundle_package_fp2k_def
  by (intro keeps_m)

lemma keeps_m_configure_manager: "keeps metrics (configure_manager e a b c)"
  unfolding configure_manager_def
  by (intro keeps_m)

lemma keeps_m_validate_version: "keeps metrics (validate_version e v)"
  unfolding validate_version_def
  by (intro keeps_m)


lemma keeps_m_baseline_steps:
  "keeps metrics
    (thn (if arg_power_cycle_flag a
          then thn (power_cycle_goto_rommon e p (arg_reboot_timeout a) None None ''admn'' ''admn'')
                   (rommon_factory_reset_and_format e p 300 (arg_reboot_timeout a))
          else ret ())
    (thn (install_rommon_build_fp2k e p (arg_tftp_server a) (arg_rommon_file a) (arg_uut_ip a)
            (arg_uut_netmask a) (arg_uut_gateway a) (arg_uut_username a) (arg_reboot_timeout a))
    (thn (execute_lines e c)
    (thn (download_ftd_fp2k e p (arg_fxos_url a) (arg_ftd_version a) (arg_file_server_password a))
    (thn (upgrade_bundle_package_fp2k e p (arg_ftd_version a) (arg_uut_hostname a)
            (arg_uut_password a) (arg_uut_ip a) (arg_uut_netmask a) (arg_uut_gateway a)
            (arg_dns_servers a) (arg_search_domains a) (arg_mode a) (arg_uut_ip6 a)
            (arg_uut_prefix a) (arg_uut_gateway6 a) (arg_firewall_mode a) (arg_timeout a))
    (thn (go_to e ''any'')
    (thn (go_to e ''fireos_state'')
    (thn (case arg_manager a of
            None \<Rightarrow> ret ()
          | Some manager \<Rightarrow>
              if arg_mode a \<noteq> ''local''
              then configure_manager e manager (arg_manager_key a) (arg_manager_nat_id a)
              else ret ())
         (validate_version e (arg_ftd_version a))))))))))"
  by (intro keeps_m keeps_m_power_cycle_goto_rommon keeps_m_rommon_factory_reset_and_format
      keeps_m_install_rommon_build_fp2k keeps_m_download_ftd_fp2k
      keeps_m_upgrade_bundle_package_fp2k keeps_m_configure_manager keeps_m_validate_version)

lemma thn_publish:
  assumes "thn (publish_kick_metric name v) m w = Some (r, w')" and "keeps metrics m"
  shows "metrics w' = metrics w @ [(name, v)]"
proof -
  from assms(1) have "m (w\<lparr>metrics := metrics w @ [(name, v)]\<rparr>) = Some (r, w')"
    by (simp add: thn_def bnd_def publish_kick_metric_def)
  from keepsD [OF assms(2) this] show ?thesis by simp
qed

lemma baseline_fp2k_ftd_metrics:
  assumes "baseline_fp2k_ftd e p a w = Some (r, w')"
  shows "metrics w' = metrics w @ [(''device.kp.baseline'', 1)]"
  using assms unfolding baseline_fp2k_ftd_def Let_def
  by (rule thn_publish) (rule keeps_m_baseline_steps)

lemma Wm_baseline_metrics:
  assumes "Wm_baseline e p a w = Some (r, w')"
  shows "metrics w' = metrics w @ [(''device.wm.baseline'', 1), (''device.kp.baseline'', 1)]"
proof -
  from assms have "baseline_fp2k_ftd e p a (w\<lparr>metrics := metrics w @ [(''device.wm.baseline'', 1)]\<rparr>)
      = Some (r, w')"
    by (simp add: Wm_baseline_def thn_def bnd_def publish_kick_metric_def)
  from baseline_fp2k_ftd_metrics [OF this] show ?thesis by simp
qed

subsection \<open>Methods that always return or raise\<close>

lemma returnsD: "returns m \<Longrightarrow> \<exists>r w'. m w = Some (r, w')"
  by (simp add: returns_def)

lemma returns_ret: "returns (ret x)"
  by (simp add: returns_def ret_def)

lemma returns_raise: "returns (raise err)"
  by (simp add: returns_def raise_def)

lemma returns_bnd:
  assumes "returns m" and "\<And>x. returns (f x)"
  shows "returns (bnd m f)"
  unfolding returns_def
proof
  fix w
  obtain r w1 where m: "m w = Some (r, w1)" using returnsD [OF assms(1)] by blast
  show "\<exists>r w'. bnd m f w = Some (r, w')"
  proof (cases r)
    case (Inl err)
    with m show ?thesis by (simp add: bnd_def)
  next
    case (Inr x)
    obtain r' w' where "f x w1 = Some (r', w')" using returnsD [OF assms(2)] by blast
    with m Inr show ?thesis by (simp add: bnd_def)
  qed
qed

lemma returns_thn: "returns m \<Longrightarrow> returns n \<Longrightarrow> returns (thn m n)"
  unfolding thn_def by (rule returns_bnd)

lemma returns_catch:
  assumes "returns m" and "\<And>err. returns (h err)"
  shows "returns (catch m h)"
  unfolding returns_def
proof
  fix w
  obtain r w1 where m: "m w = Some (r, w1)" using returnsD [OF assms(1)] by blast
  show "\<exists>r w'. catch m h w = Some (r, w')"
  proof (cases r)
    case (Inr x)
    with m show ?thesis by (simp add: catch_def)
  next
    case (Inl err)
    obtain r' w' where "h err w1 = Some (r', w')" using returnsD [OF assms(2)] by blast
    with m Inl show ?thesis by (simp add: catch_def)
  qed
qed

lemma returns_if: "(c \<Longrightarrow> returns m) \<Longrightarrow> (\<not> c \<Longrightarrow> returns n) \<Longrightarrow> returns (if c then m else n)"
  by simp

lemma returns_for_each: "(\<And>x. returns (body x)) \<Longrightarrow> returns (for_each body xs)"
  by (induction xs) (simp_all add: returns_ret returns_thn)

lemma returns_Let: "returns (g x) \<Longrightarrow> returns (Let x g)"
  by simp

lemma returns_case_option:
  "returns n \<Longrightarrow> (\<And>x. returns (s x)) \<Longrightarrow> returns (case v of None \<Rightarrow> n | Some x \<Rightarrow> s x)"
  by (cases v) simp_all

lemma returns_case_sum:
  "(\<And>x. returns (l x)) \<Longrightarrow> (\<And>x. returns (r x)) \<Longrightarrow>
   returns (case v of Inl x \<Rightarrow> l x | Inr x \<Rightarrow> r x)"
  by (cases v) simp_all

lemma returns_case_list:
  "returns n \<Longrightarrow> (\<And>x xs. returns (c x xs)) \<Longrightarrow>
   returns (case v of [] \<Rightarrow> n | x # xs \<Rightarrow> c x xs)"
  by (cases v) simp_all

lemma returns_case_error:
  "(\<And>x. returns (a x)) \<Longrightarrow> (\<And>x. returns (b x)) \<Longrightarrow> returns c \<Longrightarrow> returns d \<Longrightarrow>
   returns g \<Longrightarrow> returns h \<Longrightarrow> (\<And>x. returns (i x)) \<Longrightarrow> (\<And>x y. returns (k x y)) \<Longrightarrow>
   (\<And>x. returns (j x)) \<Longrightarrow>
   returns (case v of RuntimeError x \<Rightarrow> a x | AssertionError x \<Rightarrow> b x | IndexError \<Rightarrow> c
      | ValueError \<Rightarrow> d | AttributeError \<Rightarrow> g | TimeoutError \<Rightarrow> h
      | StateMachineError x \<Rightarrow> i x | NoPathError x y \<Rightarrow> k x y | OtherError x \<Rightarrow> j x)"
  by (cases v) simp_all

lemma returns_call: "returns (call e ev)"
  by (auto simp: returns_def call_def split: sum.splits)

lemma returns_go_to: "returns (go_to e st)"
  by (auto simp: returns_def go_to_def split: sum.splits)

lemma returns_execute: "returns (execute e c t)"
  unfolding execute_def by (rule returns_call)

lemma returns_execute_lines: "returns (execute_lines e c)"
  unfolding execute_lines_def by (rule returns_call)

lemma returns_execute_only: "returns (execute_only e c)"
  unfolding execute_only_def by (rule returns_call)

lemma returns_process: "returns (process e d t)"
  unfolding process_def by (rule returns_call)

lemma returns_expect: "returns (expect e pat t)"
  unfolding expect_def by (rule returns_call)

lemma returns_sleep: "returns (sleep n)"
  by (simp add: returns_def sleep_def)

lemma returns_sendline: "returns (sendline s)"
  by (simp add: returns_def sendline_def)

lemma returns_update_cur_state: "returns (update_cur_state st)"
  by (simp add: returns_def update_cur_state_def)

lemma returns_get_current_state: "returns get_current_state"
  by (simp add: returns_def get_current_state_def)

lemma returns_get_change_password_flag: "returns get_change_password_flag"
  by (simp add: returns_def get_change_password_flag_def)

lemma returns_set_change_password_flag: "returns (set_change_password_flag b)"
  by (simp add: returns_def set_change_password_flag_def)

lemma returns_set_power_bar: "returns (set_power_bar a b c d)"
  by (simp add: returns_def set_power_bar_def)

lemma returns_power_cycle_all_ports: "returns (power_cycle_all_ports e)"
  by (auto simp: returns_def power_cycle_all_ports_def Let_def split: sum.splits)

lemma returns_publish_kick_metric: "returns (publish_kick_metric name v)"
  by (simp add: returns_def publish_kick_metric_def)

lemmas returns_m = returns_ret returns_raise returns_bnd returns_thn returns_for_each
  returns_catch returns_if returns_Let returns_case_option returns_case_sum returns_case_list
  returns_case_error returns_call returns_go_to returns_execute returns_execute_lines
  returns_execute_only returns_process returns_expect returns_sleep returns_sendline
  returns_update_cur_state returns_get_current_state returns_get_change_password_flag
  returns_set_change_password_flag returns_set_power_bar returns_power_cycle_all_ports
  returns_publish_kick_metric

lemma returns_init_terminal: "returns (init_terminal e d)"
  unfolding init_terminal_def by (intro returns_m)

lemma returns_wait_until_device_on: "returns (wait_until_device_on e t)"
  unfolding wait_until_device_on_def by (intro returns_m returns_init_terminal)

lemma returns_power_cycle: "returns (power_cycle e s p b t u pw)"
proof -
  have "returns
     (bnd (if truthy s \<or> truthy p then set_power_bar s p u pw else ret ())
          (\<lambda>_. bnd (power_cycle_all_ports e)
            (\<lambda>result. thn (if b then wait_until_device_on e t else ret ())
                         (ret (Some result)))))"
    by (intro returns_m returns_wait_until_device_on)
  then show ?thesis
    unfolding returns_def power_cycle_def by (auto simp: ret_def)
qed

lemma returns_wait_for_rommon: "returns (wait_for_rommon e p t)"
  unfolding wait_for_rommon_def by (intro returns_m)

lemma returns_power_cycle_goto_rommon: "returns (power_cycle_goto_rommon e p t s po u pw)"
  unfolding power_cycle_goto_rommon_def
  by (intro returns_m returns_power_cycle returns_wait_for_rommon)

lemma returns_format_goto_rommon: "returns (format_goto_rommon e p t)"
  unfolding format_goto_rommon_def by (intro returns_m returns_wait_for_rommon)

lemma returns_change_password: "returns (change_password e p)"
  unfolding change_password_def by (intro returns_m)

lemma returns_rommon_factory_reset_and_format:
  "returns (rommon_factory_reset_and_format e p bt ft)"
  unfolding rommon_factory_reset_and_format_def
  by (intro returns_m returns_power_cycle_goto_rommon returns_change_password
      returns_init_terminal returns_format_goto_rommon)

lemma returns_expect_and_sendline: "returns (expect_and_sendline e es t)"
proof (induction es)
  case Nil
  show ?case by (simp add: returns_ret)
next
  case (Cons x es)
  obtain a b c where x: "x = (a, b, c)" by (cases x)
  show ?case unfolding x expect_and_sendline.simps
    by (intro returns_m Cons.IH)
qed

lemma returns_ping_loop: "returns (ping_loop e s n)"
proof (induction n)
  case 0
  show ?case by (simp add: returns_raise)
next
  case (Suc n)
  show ?case unfolding ping_loop.simps
    by (intro returns_m Suc.IH)
qed

lemma returns_rommon_configure: "returns (rommon_configure e a b c d f)"
  unfolding rommon_configure_def
  by (intro returns_m returns_expect_and_sendline returns_ping_loop)

lemma returns_rommon_tftp_download: "returns (rommon_tftp_download e p a b c t)"
  unfolding rommon_tftp_download_def
  by (intro returns_m returns_change_password)

lemma returns_install_rommon_build_fp2k:
  "returns (install_rommon_build_fp2k e p a b c d f g h)"
  unfolding install_rommon_build_fp2k_def
  by (intro returns_m returns_format_goto_rommon returns_rommon_factory_reset_and_format
      returns_rommon_configure returns_rommon_tftp_download returns_init_terminal)

lemma returns_is_firmware_fp2k_ready: "returns (is_firmware_fp2k_ready e v)"
  unfolding is_firmware_fp2k_ready_def
  by (intro returns_m)

lemma returns_get_packages: "returns (get_packages e)"
  unfolding get_packages_def
  by (intro returns_m)

lemma returns_interrupt_and_wait: "returns interrupt_and_wait"
  unfolding interrupt_and_wait_def by (intro returns_m)

lemma returns_upgrade_bundle_package_fp2k:
  "returns (upgrade_bundle_package_fp2k e p a b c d f g h i j k l m n t)"
  unfolding upgrade_bundle_package_fp2k_def
  by (intro returns_m)

lemma returns_configure_manager: "returns (configure_manager e a b c)"
  unfolding configure_manager_def
  by (intro returns_m)

lemma returns_validate_version: "returns (validate_version e v)"
  unfolding validate_version_def
  by (intro returns_m)

text \<open>
  The download returns or raises when the clock advances with the time slept and every
  state reported for a download task is one that the polling loop handles.
\<close>

lemma thn_exits:
  assumes "returns m" and "\<And>w. \<exists>r w'. n w = Some (r, w') \<and> P r" and "\<And>err. P (Inl err)"
  shows "\<exists>r w'. thn m n w = Some (r, w') \<and> P r"
proof -
  obtain r w1 where m: "m w = Some (r, w1)" using returnsD [OF assms(1)] by blast
  show ?thesis
  proof (cases r)
    case (Inl err)
    with m have "thn m n w = Some (Inl err, w1)" by (simp add: thn_def bnd_def)
    with assms(3) show ?thesis by blast
  next
    case (Inr x)
    with m have "thn m n w = n w1" by (simp add: thn_def bnd_def)
    with assms(2) [of w1] show ?thesis by simp
  qed
qed

lemma download_image_exits:
  assumes sleeping: "\<And>h n. clock e h + real n \<le> clock e (h @ [Sleep n])"
    and forward: "\<And>h ev. clock e h \<le> clock e (h @ [ev])"
    and handled: "\<And>h ev out st. status_poll ev \<Longrightarrow> reply e h ev = Inr out \<Longrightarrow>
        re_search match_state out = Some st \<Longrightarrow>
        st = ''Downloaded'' \<or> st = ''Downloading'' \<or> st = ''Failed''"
  shows "\<exists>r w'. download_image e p u pw w = Some (r, w') \<and>
           (r = Inr ''Downloaded'' \<or> r = Inr ''Failed'' \<or> (\<exists>err. r = Inl err))"
proof -
  let ?P = "\<lambda>r. r = Inr ''Downloaded'' \<or> r = Inr ''Failed'' \<or> (\<exists>err. r = Inl err)"
  have 5: "\<exists>r w'. wait_till_download_complete e u 1800 w = Some (r, w') \<and> ?P r" for w
  proof -
    have "\<exists>r w'. wait_till_download_complete e u 1800 w = Some (r, w') \<and>
     (r = Inr ''Downloaded'' \<or> r = Inr ''Failed'' \<or>
      (\<exists>full_path. r = Inl (RuntimeError (''download took too long: '' @ basename full_path))) \<or>
      r = Inl (AssertionError (''unknown file_url: '' @ u)) \<or>
      r = Inl (RuntimeError ''Incorrect file url download protocol'') \<or>
      r = Inl AttributeError \<or> (\<exists>h ev err. reply e h ev = Inl err \<and> r = Inl err))"
      by (rule wait_till_download_complete_exits) (use sleeping forward handled in blast)+
    then show ?thesis by blast
  qed
  have 4: "\<And>w. \<exists>r w'. thn (process e (download_dialog p pw) None)
      (wait_till_download_complete e u 1800) w = Some (r, w') \<and> ?P r"
    by (rule thn_exits [where P = ?P, OF returns_process 5]) simp
  have 3: "\<And>w. \<exists>r w'. thn (sleep 5) (thn (process e (download_dialog p pw) None)
      (wait_till_download_complete e u 1800)) w = Some (r, w') \<and> ?P r"
    by (rule thn_exits [where P = ?P, OF returns_sleep 4]) simp
  have 2: "\<And>w. \<exists>r w'. thn (sendline (''download image '' @ u)) (thn (sleep 5)
      (thn (process e (download_dialog p pw) None)
      (wait_till_download_complete e u 1800))) w = Some (r, w') \<and> ?P r"
    by (rule thn_exits [where P = ?P, OF returns_sendline 3]) simp
  show ?thesis
    unfolding download_image_def
    by (rule thn_exits [where P = ?P, OF returns_execute_lines 2]) simp
qed

lemma download_loop_returns:
  assumes sleeping: "\<And>h n. clock e h + real n \<le> clock e (h @ [Sleep n])"
    and forward: "\<And>h ev. clock e h \<le> clock e (h @ [ev])"
    and handled: "\<And>h ev out st. status_poll ev \<Longrightarrow> reply e h ev = Inr out \<Longrightarrow>
        re_search match_state out = Some st \<Longrightarrow>
        st = ''Downloaded'' \<or> st = ''Downloading'' \<or> st = ''Failed''"
  shows "\<exists>r w'. download_loop e p u pw n w = Some (r, w')"
proof (induction n arbitrary: w)
  case 0
  show ?case by (subst download_loop.simps) simp
next
  case (Suc n)
  have "\<exists>r w'. download_image e p u pw w = Some (r, w') \<and>
           (r = Inr ''Downloaded'' \<or> r = Inr ''Failed'' \<or> (\<exists>err. r = Inl err))"
    by (rule download_image_exits) (use sleeping forward handled in blast)+
  then obtain r w1 where d: "download_image e p u pw w = Some (r, w1)"
    and c: "r = Inr ''Downloaded'' \<or> r = Inr ''Failed'' \<or> (\<exists>err. r = Inl err)"
    by blast
  obtain w2 where i: "interrupt_and_wait w1 = Some (Inr (), w2)"
    using interrupt_and_wait_total by blast
  from c show ?case
  proof (elim disjE exE)
    assume "r = Inr ''Downloaded''"
    with d show ?thesis by (subst download_loop.simps) simp
  next
    assume f: "r = Inr ''Failed''"
    show ?thesis
    proof (cases n)
      case 0
      with d f show ?thesis by (subst download_loop.simps) simp
    next
      case (Suc k)
      with d f i have "download_loop e p u pw (Suc n) w = download_loop e p u pw n w2"
        by (subst download_loop.simps) simp
      with Suc.IH [of w2] show ?thesis by simp
    qed
  next
    fix err assume "r = Inl err"
    with d show ?thesis by (subst download_loop.simps) simp
  qed
qed

lemma returns_download_ftd_fp2k:
  assumes sleeping: "\<And>h n. clock e h + real n \<le> clock e (h @ [Sleep n])"
    and forward: "\<And>h ev. clock e h \<le> clock e (h @ [ev])"
    and handled: "\<And>h ev out st. status_poll ev \<Longrightarrow> reply e h ev = Inr out \<Longrightarrow>
        re_search match_state out = Some st \<Longrightarrow>
        st = ''Downloaded'' \<or> st = ''Downloading'' \<or> st = ''Failed''"
  shows "returns (download_ftd_fp2k e p u v pw)"
proof -
  have "\<exists>r w'. download_loop e p u pw n w = Some (r, w')" for n w
    by (rule download_loop_returns) (use sleeping forward handled in blast)+
  then have l: "\<And>n. returns (download_loop e p u pw n)"
    unfolding returns_def by blast
  show ?thesis
    unfolding download_ftd_fp2k_def
    by (intro returns_m returns_is_firmware_fp2k_ready returns_get_packages l)
qed

lemma returns_baseline_fp2k_ftd:
  assumes sleeping: "\<And>h n. clock e h + real n \<le> clock e (h @ [Sleep n])"
    and forward: "\<And>h ev. clock e h \<le> clock e (h @ [ev])"
    and handled: "\<And>h ev out st. status_poll ev \<Longrightarrow> reply e h ev = Inr out \<Longrightarrow>
        re_search match_state out = Some st \<Longrightarrow>
        st = ''Downloaded'' \<or> st = ''Downloading'' \<or> st = ''Failed''"
  shows "returns (baseline_fp2k_ftd e p a)"
proof -
  have d: "returns (download_ftd_fp2k e p u v pw)" for u v pw
    by (rule returns_download_ftd_fp2k) (use sleeping forward handled in blast)+
  show ?thesis
    unfolding baseline_fp2k_ftd_def
    by (intro returns_m returns_power_cycle_goto_rommon returns_rommon_factory_reset_and_format
        returns_install_rommon_build_fp2k d returns_upgrade_bundle_package_fp2k
        returns_configure_manager returns_validate_version)
qed

subsection \<open>One counter increment for an operation\<close>

text \<open>
  C9, as amended. \<open>Kp.__init__\<close> publishes exactly one counter increment,
  \<open>device.kp.init\<close>, and \<open>Wm.__init__\<close> exactly one, \<open>device.wm.init\<close>. A call of
  \<open>KpLine.baseline_fp2k_ftd\<close> returns or raises whenever the clock advances with the
  time slept and every state that the device reports for a download task is
  \<open>Downloaded\<close>, \<open>Downloading\<close> or \<open>Failed\<close>; and every call of it that returns or raises,
  on any device, has published exactly one counter increment, \<open>device.kp.baseline\<close>.
  The same holds of \<open>WmLine.baseline\<close> with two counter increments: \<open>device.wm.baseline\<close>
  and then, through the inherited workflow, \<open>device.kp.baseline\<close>.
\<close>

theorem counter_increments_per_call:
  "(\<exists>w'. Kp_init server port user pwd w = Some (Inr (), w') \<and>
          metrics w' = metrics w @ [(''device.kp.init'', 1)]) \<and>
   (\<exists>w'. Wm_init w = Some (Inr (), w') \<and>
          metrics w' = metrics w @ [(''device.wm.init'', 1)]) \<and>
   (\<forall>r w'. baseline_fp2k_ftd e p a w = Some (r, w') \<longrightarrow>
          metrics w' = metrics w @ [(''device.kp.baseline'', 1)]) \<and>
   (\<forall>r w'. Wm_baseline e p a w = Some (r, w') \<longrightarrow>
          metrics w' = metrics w @ [(''device.wm.baseline'', 1), (''device.kp.baseline'', 1)]) \<and>
   ((\<forall>h n. clock e h + real n \<le> clock e (h @ [Sleep n])) \<and>
    (\<forall>h ev. clock e h \<le> clock e (h @ [ev])) \<and>
    (\<forall>h ev out st. status_poll ev \<and> reply e h ev = Inr out \<and>
        re_search match_state out = Some st \<longrightarrow>
        st = ''Downloaded'' \<or> st = ''Downloading'' \<or> st = ''Failed'') \<longrightarrow>
    (\<exists>r w'. baseline_fp2k_ftd e p a w = Some (r, w') \<and>
          metrics w' = metrics w @ [(''device.kp.baseline'', 1)]) \<and>
    (\<exists>r w'. Wm_baseline e p a w = Some (r, w') \<and>
          metrics w' = metrics w @ [(''device.wm.baseline'', 1), (''device.kp.baseline'', 1)]))"
proof (intro conjI allI impI)
  show "\<exists>w'. Kp_init server port user pwd w = Some (Inr (), w') \<and>
          metrics w' = metrics w @ [(''device.kp.init'', 1)]"
    by (simp add: Kp_init_def basic_device_init_def thn_def bnd_def ret_def publish_kick_metric_def)
  show "\<exists>w'. Wm_init w = Some (Inr (), w') \<and>
          metrics w' = metrics w @ [(''device.wm.init'', 1)]"
    by (simp add: Wm_init_def basic_device_init_def thn_def bnd_def ret_def publish_kick_metric_def)
next
  fix r w' assume "baseline_fp2k_ftd e p a w = Some (r, w')"
  then show "metrics w' = metrics w @ [(''device.kp.baseline'', 1)]"
    by (rule baseline_fp2k_ftd_metrics)
next
  fix r w' assume "Wm_baseline e p a w = Some (r, w')"
  then show "metrics w' = metrics w @ [(''device.wm.baseline'', 1), (''device.kp.baseline'', 1)]"
    by (rule Wm_baseline_metrics)
next
  assume H: "(\<forall>h n. clock e h + real n \<le> clock e (h @ [Sleep n])) \<and>
    (\<forall>h ev. clock e h \<le> clock e (h @ [ev])) \<and>
    (\<forall>h ev out st. status_poll ev \<and> reply e h ev = Inr out \<and>
        re_search match_state out = Some st \<longrightarrow>
        st = ''Downloaded'' \<or> st = ''Downloading'' \<or> st = ''Failed'')"
  then have sleeping: "\<And>h n. clock e h + real n \<le> clock e (h @ [Sleep n])"
    and forward: "\<And>h ev. clock e h \<le> clock e (h @ [ev])"
    and handled: "\<And>h ev out st. status_poll ev \<Longrightarrow> reply e h ev = Inr out \<Longrightarrow>
        re_search match_state out = Some st \<Longrightarrow>
        st = ''Downloaded'' \<or> st = ''Downloading'' \<or> st = ''Failed''"
    by blast+
  have b: "returns (baseline_fp2k_ftd e p a)"
    by (rule returns_baseline_fp2k_ftd) (use sleeping forward handled in blast)+
  {
    obtain r w' where k: "baseline_fp2k_ftd e p a w = Some (r, w')"
      using returnsD [OF b] by blast
    from baseline_fp2k_ftd_metrics [OF k] k
    show "\<exists>r w'. baseline_fp2k_ftd e p a w = Some (r, w') \<and>
          metrics w' = metrics w @ [(''device.kp.baseline'', 1)]"
      by blast
  }
  {
    have "returns (Wm_baseline e p a)"
      unfolding Wm_baseline_def by (intro returns_m b)
    then obtain r w' where k: "Wm_baseline e p a w = Some (r, w')"
      using returnsD by blast
    from Wm_baseline_metrics [OF k] k
    show "\<exists>r w'. Wm_baseline e p a w = Some (r, w') \<and>
          metrics w' = metrics w @ [(''device.wm.baseline'', 1), (''device.kp.baseline'', 1)]"
      by blast
  }
qed

lemma baseline_dead_console:
  "map_option fst (baseline_fp2k_ftd dead_console_env sample_patterns sample_args sample_line)
     = Some (Inl TimeoutError)"
  by code_simp

lemma Wm_baseline_dead_console:
  "map_option fst (Wm_baseline dead_console_env sample_patterns sample_args sample_line)
     = Some (Inl TimeoutError)"
  by code_simp

theorem counter_increments_per_call_witness:
  "(\<exists>r w'. baseline_fp2k_ftd slow_env sample_patterns sample_args sample_line = Some (r, w') \<and>
       metrics w' = [(''device.kp.baseline'', 1)]) \<and>
   (\<exists>r w'. Wm_baseline slow_env sample_patterns sample_args sample_line = Some (r, w') \<and>
       metrics w' = [(''device.wm.baseline'', 1), (''device.kp.baseline'', 1)]) \<and>
   map_option (metrics \<circ> snd)
     (baseline_fp2k_ftd dead_console_env sample_patterns sample_args sample_line)
     = Some [(''device.kp.baseline'', 1)] \<and>
   map_option (metrics \<circ> snd)
     (Wm_baseline dead_console_env sample_patterns sample_args sample_line)
     = Some [(''device.wm.baseline'', 1), (''device.kp.baseline'', 1)]"
proof -
  have sleeping: "\<forall>h n. clock slow_env h + real n \<le> clock slow_env (h @ [Sleep n])"
    by (simp add: slow_env_def seconds_slept_def)
  have forward: "\<forall>h ev. clock slow_env h \<le> clock slow_env (h @ [ev])"
    by (simp add: slow_env_def seconds_slept_def)
  have handled: "\<forall>h ev out st. status_poll ev \<and> reply slow_env h ev = Inr out \<and>
        re_search match_state out = Some st \<longrightarrow>
        st = ''Downloaded'' \<or> st = ''Downloading'' \<or> st = ''Failed''"
    by (auto simp: slow_env_def status_poll_def match_state_def isword_def
        split: if_splits event.splits)
  have m0: "metrics sample_line = []" by (simp add: sample_line_def)
  from sleeping forward handled counter_increments_per_call
    [of "[]" "[]" "''admn''" "''admn''" sample_line slow_env sample_patterns sample_args]
  have slow: "(\<exists>r w'. baseline_fp2k_ftd slow_env sample_patterns sample_args sample_line = Some (r, w') \<and>
       metrics w' = metrics sample_line @ [(''device.kp.baseline'', 1)]) \<and>
   (\<exists>r w'. Wm_baseline slow_env sample_patterns sample_args sample_line = Some (r, w') \<and>
       metrics w' = metrics sample_line @ [(''device.wm.baseline'', 1), (''device.kp.baseline'', 1)])"
    by blast
  obtain w1 where 1: "baseline_fp2k_ftd dead_console_env sample_patterns sample_args sample_line
      = Some (Inl TimeoutError, w1)"
    using baseline_dead_console by (auto simp: map_option_case split: option.splits)
  obtain w2 where 2: "Wm_baseline dead_console_env sample_patterns sample_args sample_line
      = Some (Inl TimeoutError, w2)"
    using Wm_baseline_dead_console by (auto simp: map_option_case split: option.splits)
  from counter_increments_per_call
    [of "[]" "[]" "''admn''" "''admn''" sample_line dead_console_env sample_patterns sample_args]
  have "metrics w1 = metrics sample_line @ [(''device.kp.baseline'', 1)]"
    and "metrics w2 = metrics sample_line @ [(''device.wm.baseline'', 1), (''device.kp.baseline'', 1)]"
    using 1 2 by blast+
  with 1 2 slow show ?thesis by (simp add: m0)
qed

text \<open>
  C9 as stated fails for \<open>WmLine.baseline\<close>: one invocation (here on a console whose
  first dialog times out) publishes two baseline counter increments.
\<close>

theorem Wm_baseline_two_increments:
  "map_option (metrics \<circ> snd)
     (Wm_baseline dead_console_env sample_patterns sample_args sample_line)
     = Some [(''device.wm.baseline'', 1), (''device.kp.baseline'', 1)]"
  by code_simp

subsection \<open>The state machine: breadth-first search finds a shortest route\<close>

lemma is_route_snoc:
  "is_route ps a b (r @ [q]) =
     (is_route ps a (state_name (from_state q)) r \<and> q \<in> set ps \<and> state_name (to_state q) = b)"
  by (induction r arbitrary: a) auto

lemma is_route_target:
  "is_route ps a s r \<Longrightarrow> s = a \<or> s \<in> (\<lambda>q. state_name (to_state q)) ` set ps"
proof (induction r arbitrary: s rule: rev_induct)
  case Nil
  then show ?case by simp
next
  case (snoc q r)
  then show ?case by (auto simp: is_route_snoc)
qed

lemma successors_fst:
  "fst ` set (successors ps visited x) =
     {state_name (to_state q) | q. q \<in> set ps \<and> state_name (from_state q) = fst x} - set visited"
  by (induction ps arbitrary: visited) (auto simp: image_iff)

lemma successors_entry:
  "y \<in> set (successors ps visited x) \<Longrightarrow>
     \<exists>q \<in> set ps. state_name (from_state q) = fst x \<and> y = (state_name (to_state q), snd x @ [q])"
  by (induction ps arbitrary: visited) (auto split: if_splits)

lemma next_level_fst:
  "fst ` set (next_level ps visited frontier) =
     {state_name (to_state q) | q. q \<in> set ps \<and> state_name (from_state q) \<in> fst ` set frontier}
       - set visited"
proof (induction frontier arbitrary: visited)
  case Nil
  show ?case by simp
next
  case (Cons x xs)
  have "fst ` set (next_level ps visited (x # xs)) =
      fst ` set (successors ps visited x) \<union>
      fst ` set (next_level ps (map fst (successors ps visited x) @ visited) xs)"
    by (simp add: Let_def image_Un)
  also have "\<dots> =
      ({state_name (to_state q) | q. q \<in> set ps \<and> state_name (from_state q) = fst x} - set visited) \<union>
      ({state_name (to_state q) | q. q \<in> set ps \<and> state_name (from_state q) \<in> fst ` set xs}
         - (fst ` set (successors ps visited x) \<union> set visited))"
    by (simp add: Cons.IH successors_fst)
  also have "\<dots> =
      {state_name (to_state q) | q. q \<in> set ps \<and> state_name (from_state q) \<in> fst ` set (x # xs)}
        - set visited"
    by (auto simp: successors_fst)
  finally show ?case .
qed

lemma next_level_entry:
  "y \<in> set (next_level ps visited frontier) \<Longrightarrow>
     \<exists>x \<in> set frontier. \<exists>q \<in> set ps.
        state_name (from_state q) = fst x \<and> y = (state_name (to_state q), snd x @ [q])"
proof (induction frontier arbitrary: visited)
  case Nil
  then show ?case by simp
next
  case (Cons x xs)
  from Cons.prems have "y \<in> set (successors ps visited x) \<or>
      y \<in> set (next_level ps (map fst (successors ps visited x) @ visited) xs)"
    by (simp add: Let_def)
  then show ?case
  proof
    assume "y \<in> set (successors ps visited x)"
    from successors_entry [OF this] show ?thesis by auto
  next
    assume "y \<in> set (next_level ps (map fst (successors ps visited x) @ visited) xs)"
    from Cons.IH [OF this] show ?thesis by auto
  qed
qed

lemma near_0: "near ps a 0 = {}"
  by (simp add: near_def)

lemma near_Suc: "near ps a (Suc n) = near ps a n \<union> at_dist ps a n"
  by (auto simp: near_def at_dist_def less_Suc_eq)

lemma at_dist_disjoint: "at_dist ps a n \<inter> near ps a n = {}"
  by (auto simp: at_dist_def)

lemma at_dist_Suc:
  "at_dist ps a (Suc n) =
     {state_name (to_state q) | q. q \<in> set ps \<and> state_name (from_state q) \<in> at_dist ps a n}
       - near ps a (Suc n)"
proof (intro set_eqI iffI)
  fix s assume s: "s \<in> at_dist ps a (Suc n)"
  then obtain r where r: "is_route ps a s r" "length r = Suc n" and ns: "s \<notin> near ps a (Suc n)"
    by (auto simp: at_dist_def)
  from r(2) obtain r' q where rq: "r = r' @ [q]" by (cases r rule: rev_cases) auto
  with r have r': "is_route ps a (state_name (from_state q)) r'" "q \<in> set ps"
    "state_name (to_state q) = s" "length r' = n"
    by (auto simp: is_route_snoc)
  have "state_name (from_state q) \<notin> near ps a n"
  proof
    assume "state_name (from_state q) \<in> near ps a n"
    then obtain t where t: "is_route ps a (state_name (from_state q)) t" "length t < n"
      by (auto simp: near_def)
    then have "is_route ps a s (t @ [q])" using r' by (simp add: is_route_snoc)
    moreover have "length (t @ [q]) < Suc n" using t by simp
    ultimately have "s \<in> near ps a (Suc n)" unfolding near_def by blast
    with ns show False by simp
  qed
  with r' have "state_name (from_state q) \<in> at_dist ps a n"
    by (auto simp: at_dist_def)
  with r' ns show "s \<in> {state_name (to_state q) | q. q \<in> set ps \<and>
      state_name (from_state q) \<in> at_dist ps a n} - near ps a (Suc n)"
    by blast
next
  fix s assume "s \<in> {state_name (to_state q) | q. q \<in> set ps \<and>
      state_name (from_state q) \<in> at_dist ps a n} - near ps a (Suc n)"
  then obtain q where q: "q \<in> set ps" "state_name (from_state q) \<in> at_dist ps a n"
    "s = state_name (to_state q)" and ns: "s \<notin> near ps a (Suc n)"
    by blast
  from q(2) obtain r' where "is_route ps a (state_name (from_state q)) r'" "length r' = n"
    by (auto simp: at_dist_def)
  with q have "is_route ps a s (r' @ [q])" "length (r' @ [q]) = Suc n"
    by (simp_all add: is_route_snoc)
  with ns show "s \<in> at_dist ps a (Suc n)"
    unfolding at_dist_def by blast
qed

lemma at_dist_empty:
  "at_dist ps a n = {} \<Longrightarrow> n \<le> m \<Longrightarrow> at_dist ps a m = {}"
proof (induction m)
  case 0
  then show ?case by simp
next
  case (Suc m)
  show ?case
  proof (cases "n = Suc m")
    case True
    with Suc.prems show ?thesis by simp
  next
    case False
    with Suc have "at_dist ps a m = {}" by simp
    then show ?thesis by (simp add: at_dist_Suc)
  qed
qed

lemma bfs_inv_init: "bfs_inv ps a 0 [a] [(a, [])]"
  by (auto simp: bfs_inv_def near_def at_dist_def)

lemma bfs_inv_step:
  assumes "bfs_inv ps a n visited frontier"
  shows "bfs_inv ps a (Suc n) (map fst (next_level ps visited frontier) @ visited)
           (next_level ps visited frontier)"
proof -
  from assms have v: "set visited = near ps a (Suc n)"
    and f: "fst ` set frontier = at_dist ps a n"
    and e: "\<And>x. x \<in> set frontier \<Longrightarrow> is_route ps a (fst x) (snd x) \<and> length (snd x) = n"
    by (auto simp: bfs_inv_def list_all_iff)
  have nf: "fst ` set (next_level ps visited frontier) = at_dist ps a (Suc n)"
    by (simp add: next_level_fst f v at_dist_Suc)
  have "set (map fst (next_level ps visited frontier) @ visited) = near ps a (Suc (Suc n))"
    using nf v by (auto simp: near_Suc [of ps a "Suc n"])
  moreover have "list_all (\<lambda>x. is_route ps a (fst x) (snd x) \<and> length (snd x) = Suc n)
      (next_level ps visited frontier)"
    unfolding list_all_iff
  proof
    fix y assume "y \<in> set (next_level ps visited frontier)"
    from next_level_entry [OF this] obtain x q where
      "x \<in> set frontier" "q \<in> set ps" "state_name (from_state q) = fst x"
      "y = (state_name (to_state q), snd x @ [q])"
      by blast
    with e [of x] show "is_route ps a (fst y) (snd y) \<and> length (snd y) = Suc n"
      by (simp add: is_route_snoc)
  qed
  ultimately show ?thesis using nf by (simp add: bfs_inv_def)
qed

lemma explore_entry:
  assumes "bfs_inv ps a n visited frontier" and "x \<in> set (explore k ps visited frontier)"
  shows "is_route ps a (fst x) (snd x) \<and> fst x \<in> at_dist ps a (length (snd x))"
  using assms
proof (induction k arbitrary: n visited frontier)
  case 0
  then show ?case by (auto simp: bfs_inv_def list_all_iff)
next
  case (Suc k)
  show ?case
  proof (cases "x \<in> set frontier")
    case True
    with Suc.prems(1) show ?thesis by (auto simp: bfs_inv_def list_all_iff)
  next
    case False
    with Suc.prems(2) have "x \<in> set (explore k ps (map fst (next_level ps visited frontier) @ visited)
        (next_level ps visited frontier))"
      by (auto simp: Let_def split: if_splits)
    with bfs_inv_step [OF Suc.prems(1)] show ?thesis by (rule Suc.IH)
  qed
qed

lemma explore_complete:
  assumes "bfs_inv ps a n visited frontier" and "b \<in> at_dist ps a m" and "n \<le> m" and "m \<le> n + k"
  shows "b \<in> fst ` set (explore k ps visited frontier)"
  using assms
proof (induction k arbitrary: n visited frontier)
  case 0
  then show ?case by (simp add: bfs_inv_def)
next
  case (Suc k)
  from Suc.prems(1) have f: "fst ` set frontier = at_dist ps a n" by (simp add: bfs_inv_def)
  show ?case
  proof (cases "frontier = []")
    case True
    with f have "at_dist ps a n = {}" by simp
    from at_dist_empty [OF this Suc.prems(3)] Suc.prems(2) show ?thesis by simp
  next
    case False
    show ?thesis
    proof (cases "m = n")
      case True
      with Suc.prems(2) f False show ?thesis by (simp add: Let_def image_Un)
    next
      case ne: False
      with Suc.prems have "Suc n \<le> m" "m \<le> Suc n + k" by simp_all
      from Suc.IH [OF bfs_inv_step [OF Suc.prems(1)] Suc.prems(2) this]
      show ?thesis using False by (simp add: Let_def image_Un)
    qed
  qed
qed


lemma near_subset: "near ps a n \<subseteq> insert a ((\<lambda>q. state_name (to_state q)) ` set ps)"
proof
  fix s assume "s \<in> near ps a n"
  then obtain r where "is_route ps a s r" by (auto simp: near_def)
  from is_route_target [OF this] show "s \<in> insert a ((\<lambda>q. state_name (to_state q)) ` set ps)"
    by auto
qed

lemma finite_near: "finite (near ps a n)"
  by (rule finite_subset [OF near_subset]) simp

lemma card_near:
  assumes "\<And>i. i \<le> m \<Longrightarrow> at_dist ps a i \<noteq> {}"
  shows "Suc m \<le> card (near ps a (Suc m))"
  using assms
proof (induction m)
  case 0
  then have "near ps a (Suc 0) \<noteq> {}" by (simp add: near_Suc near_0)
  with finite_near [of ps a "Suc 0"] have "card (near ps a (Suc 0)) \<noteq> 0" by simp
  then show ?case by simp
next
  case (Suc m)
  have fin: "finite (near ps a (Suc m))" "finite (at_dist ps a (Suc m))"
    using finite_near [of ps a "Suc m"] finite_near [of ps a "Suc (Suc m)"]
    by (auto simp: near_Suc [of ps a "Suc m"])
  have "at_dist ps a (Suc m) \<noteq> {}" using Suc.prems by simp
  with fin have "1 \<le> card (at_dist ps a (Suc m))"
    by (simp add: Suc_le_eq card_gt_0_iff)
  moreover have "Suc m \<le> card (near ps a (Suc m))" using Suc by simp
  moreover have "card (near ps a (Suc (Suc m))) =
      card (near ps a (Suc m)) + card (at_dist ps a (Suc m))"
    unfolding near_Suc [of ps a "Suc m"]
    using fin at_dist_disjoint [of ps a "Suc m"] by (intro card_Un_disjoint) auto
  ultimately show ?case by simp
qed

lemma at_dist_bound:
  assumes b: "b \<in> at_dist ps a m"
    and wf: "(\<lambda>q. state_name (to_state q)) ` set ps \<subseteq> state_name ` set states"
  shows "m \<le> length states"
proof -
  have "at_dist ps a i \<noteq> {}" if "i \<le> m" for i
  proof
    assume "at_dist ps a i = {}"
    from at_dist_empty [OF this that] b show False by simp
  qed
  then have "Suc m \<le> card (near ps a (Suc m))" by (rule card_near)
  also have "\<dots> \<le> card (insert a (state_name ` set states))"
    using near_subset [of ps a "Suc m"] wf by (intro card_mono) auto
  also have "\<dots> \<le> Suc (card (state_name ` set states))"
    by (simp add: card_insert_if)
  also have "\<dots> \<le> Suc (length states)"
    using card_image_le [of "set states" state_name] card_length [of states] by simp
  finally show ?thesis by simp
qed

lemma reachable_at_dist:
  assumes "is_route ps a b r"
  shows "\<exists>m. b \<in> at_dist ps a m"
proof -
  define m where "m = (LEAST n. \<exists>r. is_route ps a b r \<and> length r = n)"
  from assms have ex: "\<exists>n. \<exists>r. is_route ps a b r \<and> length r = n" by blast
  from LeastI_ex [OF ex] have 1: "\<exists>r. is_route ps a b r \<and> length r = m"
    by (simp add: m_def)
  have "b \<notin> near ps a m"
  proof
    assume "b \<in> near ps a m"
    then obtain t where t: "is_route ps a b t" "length t < m" by (auto simp: near_def)
    then have "\<exists>r. is_route ps a b r \<and> length r = length t" by blast
    then have "m \<le> length t" unfolding m_def by (rule Least_le)
    with t show False by simp
  qed
  with 1 have "b \<in> at_dist ps a m" by (simp add: at_dist_def)
  then show ?thesis ..
qed

lemma find_route_Some:
  assumes wf: "(\<lambda>q. state_name (to_state q)) ` set (sm_paths sm) \<subseteq> state_name ` set (sm_states sm)"
    and r: "is_route (sm_paths sm) a b r"
  shows "\<exists>route. find_route sm a b = Some route \<and> is_route (sm_paths sm) a b route \<and>
           (\<forall>r'. is_route (sm_paths sm) a b r' \<longrightarrow> length route \<le> length r')"
proof -
  let ?ps = "sm_paths sm"
  let ?found = "explore (length (sm_states sm)) ?ps [a] [(a, [])]"
  from reachable_at_dist [OF r] obtain m where m: "b \<in> at_dist ?ps a m" ..
  from at_dist_bound [OF m wf] have "m \<le> 0 + length (sm_states sm)" by simp
  from explore_complete [OF bfs_inv_init m _ this]
  have "b \<in> fst ` set ?found" by simp
  then have "\<exists>x \<in> set ?found. fst x = b" by auto
  then obtain x where x: "find (\<lambda>x. fst x = b) ?found = Some x"
    by (cases "find (\<lambda>x. fst x = b) ?found") (auto simp: find_None_iff)
  then have xs: "x \<in> set ?found" and xb: "fst x = b"
    by (auto simp: find_Some_iff in_set_conv_nth)
  from explore_entry [OF bfs_inv_init xs] xb
  have e: "is_route ?ps a b (snd x)" "b \<in> at_dist ?ps a (length (snd x))" by simp_all
  have "length (snd x) \<le> length r'" if "is_route ?ps a b r'" for r'
  proof (rule ccontr)
    assume "\<not> length (snd x) \<le> length r'"
    with that have "b \<in> near ?ps a (length (snd x))" by (auto simp: near_def)
    with e(2) show False by (simp add: at_dist_def)
  qed
  with e(1) x show ?thesis by (simp add: find_route_def)
qed

lemma find_route_None:
  assumes "\<not> (\<exists>r. is_route (sm_paths sm) a b r)"
  shows "find_route sm a b = None"
proof -
  let ?found = "explore (length (sm_states sm)) (sm_paths sm) [a] [(a, [])]"
  have "fst x \<noteq> b" if "x \<in> set ?found" for x
    using explore_entry [OF bfs_inv_init that] assms by auto
  then have "\<not> (\<exists>x. x \<in> set ?found \<and> fst x = b)" by blast
  then have "find (\<lambda>x. fst x = b) ?found = None" unfolding find_None_iff .
  then show ?thesis by (simp add: find_route_def)
qed

lemma for_each_run_path:
  assumes ok: "\<forall>h ev. \<exists>out. reply e h ev = Inr out"
    and r: "is_route ps a b route" and w: "current_state w = a"
  shows "\<exists>w'. for_each (run_path e sm t) route w = Some (Inr (), w') \<and> current_state w' = b \<and>
           trace w' = trace w @ concat (map (path_events sm t) route)"
  using r w
proof (induction route arbitrary: a w)
  case Nil
  then show ?case by (simp add: ret_def)
next
  case (Cons q route)
  define w1 where "w1 = record_event (Sendline (command q)) w"
  define ev where "ev = (case dialog q of
      Some d \<Rightarrow> Process (d @ sm_default_statements sm) (Some t)
    | None \<Rightarrow> Expect (state_pattern (to_state q)) t)"
  define w2 where "w2 = (record_event ev w1)\<lparr>current_state := state_name (to_state q)\<rparr>"
  from ok obtain out where out: "reply e (trace w1) ev = Inr out" by blast
  have step: "run_path e sm t q w = Some (Inr (), w2)"
    using out
    by (cases "dialog q")
       (simp_all add: run_path_def thn_def bnd_def sendline_def process_def expect_def call_def
          update_cur_state_def w1_def [symmetric] ev_def w2_def)
  have "is_route ps (state_name (to_state q)) b route" "current_state w2 = state_name (to_state q)"
    using Cons.prems by (simp_all add: w2_def)
  from Cons.IH [OF this] obtain w' where
    w': "for_each (run_path e sm t) route w2 = Some (Inr (), w')" "current_state w' = b"
      "trace w' = trace w2 @ concat (map (path_events sm t) route)"
    by blast
  have "trace w2 = trace w @ path_events sm t q"
    by (simp add: w2_def w1_def record_event_def path_events_def ev_def)
  with w' step show ?case by (simp add: thn_def bnd_def)
qed

lemma sm_go_to_route:
  assumes wf: "(\<lambda>q. state_name (to_state q)) ` set (sm_paths sm) \<subseteq> state_name ` set (sm_states sm)"
    and r: "is_route (sm_paths sm) (current_state w) b r"
    and ok: "\<forall>h ev. \<exists>out. reply e h ev = Inr out"
  shows "\<exists>route w'. is_route (sm_paths sm) (current_state w) b route \<and>
           (\<forall>r'. is_route (sm_paths sm) (current_state w) b r' \<longrightarrow> length route \<le> length r') \<and>
           sm_go_to e sm b t w = Some (Inr (), w') \<and> current_state w' = b \<and>
           trace w' = trace w @ concat (map (path_events sm t) route)"
proof -
  from find_route_Some [OF wf r] obtain route where
    f: "find_route sm (current_state w) b = Some route"
    and i: "is_route (sm_paths sm) (current_state w) b route"
    and s: "\<forall>r'. is_route (sm_paths sm) (current_state w) b r' \<longrightarrow> length route \<le> length r'"
    by blast
  from for_each_run_path [OF ok i refl, of sm t] obtain w' where
    "for_each (run_path e sm t) route w = Some (Inr (), w')" "current_state w' = b"
    "trace w' = trace w @ concat (map (path_events sm t) route)"
    by blast
  with f have "sm_go_to e sm b t w = Some (Inr (), w') \<and> current_state w' = b \<and>
      trace w' = trace w @ concat (map (path_events sm t) route)"
    by (simp add: sm_go_to_def bnd_def get_current_state_def)
  with i s show ?thesis by blast
qed

lemma sm_go_to_no_path:
  assumes "\<not> (\<exists>r. is_route (sm_paths sm) (current_state w) b r)"
  shows "sm_go_to e sm b t w = Some (Inl (NoPathError (current_state w) b), w)"
  using find_route_None [OF assms]
  by (simp add: sm_go_to_def bnd_def get_current_state_def raise_def)

lemmas kp_states_defs = prelogin_state_def fxos_state_def fireos_state_def expert_state_def
  sudo_state_def rommon_state_def local_mgmt_state_def enable_state_def disable_state_def
  config_state_def

lemma Kp_paths_wf:
  "(\<lambda>q. state_name (to_state q)) ` set (sm_paths (KpStateMachine_create p fd s))
     \<subseteq> state_name ` set (sm_states (KpStateMachine_create p fd s))"
  by (simp add: KpStateMachine_create_def Let_def kp_states_defs)

lemma Kp_no_path_to_rommon:
  "q \<in> set (sm_paths (KpStateMachine_create p fd s)) \<Longrightarrow>
     state_name (to_state q) \<noteq> ''rommon_state''"
  by (auto simp: KpStateMachine_create_def Let_def kp_states_defs)

lemma Kp_rommon_unreachable:
  assumes "is_route (sm_paths (KpStateMachine_create p fd s)) a ''rommon_state'' r"
  shows "a = ''rommon_state''"
proof (rule ccontr)
  assume "a \<noteq> ''rommon_state''"
  with is_route_target [OF assms]
  obtain q where "q \<in> set (sm_paths (KpStateMachine_create p fd s))"
    "state_name (to_state q) = ''rommon_state''"
    by (auto simp: image_iff)
  with Kp_no_path_to_rommon [of q p fd s] show False by simp
qed


text \<open>
  C2. In the graph that \<open>KpStateMachine.create\<close> builds, from the current state \<open>a\<close>:
  if \<open>b\<close> can be reached over Paths and the console answers every call, \<open>go_to b\<close>
  returns, the console has seen exactly the Paths of one route from \<open>a\<close> to \<open>b\<close>, in
  order, no route from \<open>a\<close> to \<open>b\<close> is shorter than it, and the current state is
  \<open>b\<close>; if \<open>b\<close> cannot be reached, \<open>go_to b\<close> raises \<open>NoPathError\<close> and the line is
  what it was; no Path leads to \<open>rommon_state\<close>, so this is the outcome of
  \<open>go_to rommon_state\<close> from every other state.
\<close>

theorem Kp_go_to_shortest_route_or_NoPathError:
  assumes sm: "sm = KpStateMachine_create p fd s" and a: "current_state w = a"
  shows "((\<exists>r. is_route (sm_paths sm) a b r) \<and> (\<forall>h ev. \<exists>out. reply e h ev = Inr out) \<longrightarrow>
            (\<exists>route w'. is_route (sm_paths sm) a b route \<and>
               (\<forall>r. is_route (sm_paths sm) a b r \<longrightarrow> length route \<le> length r) \<and>
               sm_go_to e sm b t w = Some (Inr (), w') \<and> current_state w' = b \<and>
               trace w' = trace w @ concat (map (path_events sm t) route))) \<and>
         (\<not> (\<exists>r. is_route (sm_paths sm) a b r) \<longrightarrow>
            sm_go_to e sm b t w = Some (Inl (NoPathError a b), w)) \<and>
         (\<forall>q \<in> set (sm_paths sm). state_name (to_state q) \<noteq> ''rommon_state'') \<and>
         (a \<noteq> ''rommon_state'' \<longrightarrow>
            sm_go_to e sm ''rommon_state'' t w =
              Some (Inl (NoPathError a ''rommon_state''), w))"
proof (intro conjI impI ballI)
  assume "(\<exists>r. is_route (sm_paths sm) a b r) \<and> (\<forall>h ev. \<exists>out. reply e h ev = Inr out)"
  then obtain r where r: "is_route (sm_paths sm) (current_state w) b r"
    and ok: "\<forall>h ev. \<exists>out. reply e h ev = Inr out"
    using a by blast
  have wf: "(\<lambda>q. state_name (to_state q)) ` set (sm_paths sm) \<subseteq> state_name ` set (sm_states sm)"
    unfolding sm by (rule Kp_paths_wf)
  from sm_go_to_route [OF wf r ok, of t]
  show "\<exists>route w'. is_route (sm_paths sm) a b route \<and>
      (\<forall>r. is_route (sm_paths sm) a b r \<longrightarrow> length route \<le> length r) \<and>
      sm_go_to e sm b t w = Some (Inr (), w') \<and> current_state w' = b \<and>
      trace w' = trace w @ concat (map (path_events sm t) route)"
    unfolding a .
next
  assume "\<not> (\<exists>r. is_route (sm_paths sm) a b r)"
  then have "\<not> (\<exists>r. is_route (sm_paths sm) (current_state w) b r)" by (simp add: a)
  from sm_go_to_no_path [OF this, of e t]
  show "sm_go_to e sm b t w = Some (Inl (NoPathError a b), w)" by (simp add: a)
next
  fix q assume "q \<in> set (sm_paths sm)"
  then show "state_name (to_state q) \<noteq> ''rommon_state''"
    unfolding sm by (rule Kp_no_path_to_rommon)
next
  assume ne: "a \<noteq> ''rommon_state''"
  have "\<not> (\<exists>r. is_route (sm_paths sm) (current_state w) ''rommon_state'' r)"
  proof
    assume "\<exists>r. is_route (sm_paths sm) (current_state w) ''rommon_state'' r"
    then obtain r where "is_route (sm_paths (KpStateMachine_create p fd s)) a ''rommon_state'' r"
      by (auto simp: sm a)
    from Kp_rommon_unreachable [OF this] ne show False by simp
  qed
  from sm_go_to_no_path [OF this, of e t]
  show "sm_go_to e sm ''rommon_state'' t w = Some (Inl (NoPathError a ''rommon_state''), w)"
    by (simp add: a)
qed

theorem Kp_go_to_shortest_route_or_NoPathError_witness:
  "(\<exists>route w'. is_route (sm_paths kp_sm) ''sudo_state'' ''config_state'' route \<and>
      length route \<le> 3 \<and>
      sm_go_to quiet_env kp_sm ''config_state'' 10 (sample_line\<lparr>current_state := ''sudo_state''\<rparr>)
        = Some (Inr (), w') \<and>
      current_state w' = ''config_state'' \<and>
      trace w' = concat (map (path_events kp_sm 10) route)) \<and>
   sm_go_to quiet_env kp_sm ''rommon_state'' 10 sample_line =
     Some (Inl (NoPathError ''fxos_state'' ''rommon_state''), sample_line)"
proof -
  let ?w = "sample_line\<lparr>current_state := ''sudo_state''\<rparr>"
  let ?r = "[Path (sudo_state sample_patterns) (expert_state sample_patterns) ''exit'' None,
             Path (expert_state sample_patterns) (fireos_state sample_patterns) ''exit'' None,
             Path (fireos_state sample_patterns) (config_state sample_patterns)
               ''system support diagnostic-cli'' (Some [])]"
  have sm: "kp_sm = KpStateMachine_create sample_patterns sample_ftd_dialogs sample_statement"
    by (simp add: kp_sm_def)
  have a: "current_state ?w = ''sudo_state''" by simp
  have r: "is_route (sm_paths kp_sm) ''sudo_state'' ''config_state'' ?r"
    by (simp add: kp_sm_def KpStateMachine_create_def Let_def kp_states_defs
        sample_ftd_dialogs_def)
  have ok: "\<forall>h ev. \<exists>out. reply quiet_env h ev = Inr out" by (simp add: quiet_env_def)
  from r ok Kp_go_to_shortest_route_or_NoPathError
    [OF sm a, of "''config_state''" quiet_env 10]
  obtain route w' where 1: "is_route (sm_paths kp_sm) ''sudo_state'' ''config_state'' route"
    and 2: "\<forall>r. is_route (sm_paths kp_sm) ''sudo_state'' ''config_state'' r \<longrightarrow>
              length route \<le> length r"
    and 3: "sm_go_to quiet_env kp_sm ''config_state'' 10 ?w = Some (Inr (), w')"
      "current_state w' = ''config_state''"
      "trace w' = trace ?w @ concat (map (path_events kp_sm 10) route)"
    by blast
  from 2 r have "length route \<le> 3" by fastforce
  moreover have "trace ?w = []" by (simp add: sample_line_def)
  ultimately have first:
    "\<exists>route w'. is_route (sm_paths kp_sm) ''sudo_state'' ''config_state'' route \<and>
      length route \<le> 3 \<and>
      sm_go_to quiet_env kp_sm ''config_state'' 10 ?w = Some (Inr (), w') \<and>
      current_state w' = ''config_state'' \<and>
      trace w' = concat (map (path_events kp_sm 10) route)"
    using 1 3 by auto
  have b: "current_state sample_line = ''fxos_state''" by (simp add: sample_line_def)
  have "''fxos_state'' \<noteq> ''rommon_state''" by simp
  with Kp_go_to_shortest_route_or_NoPathError [OF sm b, of _ quiet_env 10]
  have "sm_go_to quiet_env kp_sm ''rommon_state'' 10 sample_line =
      Some (Inl (NoPathError ''fxos_state'' ''rommon_state''), sample_line)"
    by blast
  with first show ?thesis by blast
qed

subsection \<open>The dialog engine\<close>

lemma first_match_Some:
  "first_match search d buf = Some (k, rest) \<longleftrightarrow>
     k < length d \<and> search (pattern_of (d ! k)) buf = Some rest \<and>
     (\<forall>m<k. search (pattern_of (d ! m)) buf = None)"
proof (induction d arbitrary: k)
  case Nil
  show ?case by simp
next
  case (Cons r rs)
  show ?case
  proof (cases "search (pattern_of r) buf")
    case (Some x)
    show ?thesis
    proof (cases k)
      case 0
      with Some show ?thesis by auto
    next
      case (Suc n)
      with Some show ?thesis by auto
    qed
  next
    case None
    show ?thesis
    proof (cases k)
      case 0
      with None show ?thesis by auto
    next
      case (Suc n)
      have "(\<forall>m<Suc n. search (pattern_of ((r # rs) ! m)) buf = None) =
          (\<forall>m<n. search (pattern_of (rs ! m)) buf = None)"
        using None by (auto simp: less_Suc_eq_0_disj)
      with None Suc Cons.IH [of n] show ?thesis by auto
    qed
  qed
qed

lemma first_match_exists:
  assumes "i < length d" and "search (pattern_of (d ! i)) buf \<noteq> None"
  shows "\<exists>k rest. first_match search d buf = Some (k, rest) \<and> k \<le> i"
proof -
  define k where "k = (LEAST m. search (pattern_of (d ! m)) buf \<noteq> None)"
  from assms(2) have k: "search (pattern_of (d ! k)) buf \<noteq> None" "k \<le> i"
    unfolding k_def by (rule LeastI, rule Least_le)
  have "search (pattern_of (d ! m)) buf = None" if "m < k" for m
    using not_less_Least [of m "\<lambda>m. search (pattern_of (d ! m)) buf \<noteq> None"] that
    by (simp add: k_def)
  moreover from k obtain rest where "search (pattern_of (d ! k)) buf = Some rest" by auto
  ultimately have "first_match search d buf = Some (k, rest)"
    using k assms(1) by (simp add: first_match_Some)
  with k show ?thesis by blast
qed

text \<open>
  C1, as amended. Whenever the accumulated input satisfies the patterns of the rules
  \<open>i\<close> and \<open>j\<close> of a dialog, \<open>i\<close> before \<open>j\<close>, the engine executes for that input the
  action of exactly one rule \<open>k\<close>, the first rule in list order that the input
  satisfies: \<open>k\<close> is at or before \<open>i\<close>, it is \<open>i\<close> if and only if no rule before
  \<open>i\<close> is satisfied as well, and it is never \<open>j\<close>. If rule \<open>k\<close> ends the dialog the
  run returns with it as the result; if it continues the dialog, the rest of the run is
  the run on the input that is left after the match.
\<close>

theorem dialog_run_executes_first_match:
  assumes "i < j" and "j < length d"
    and "search (pattern_of (d ! i)) (buf @ chunk) \<noteq> None"
    and "search (pattern_of (d ! j)) (buf @ chunk) \<noteq> None"
  shows "\<exists>k rest.
           k \<le> i \<and> k \<noteq> j \<and>
           search (pattern_of (d ! k)) (buf @ chunk) = Some rest \<and>
           (\<forall>m<k. search (pattern_of (d ! m)) (buf @ chunk) = None) \<and>
           (k = i \<longleftrightarrow> (\<forall>m<i. search (pattern_of (d ! m)) (buf @ chunk) = None)) \<and>
           dialog_run search d buf (chunk # chunks) =
             (if loop_continue (d ! k)
              then (case dialog_run search d rest chunks of
                      (executed, result) \<Rightarrow> ((k, action_of (d ! k)) # executed, result))
              else ([(k, action_of (d ! k))], MatchResult k (buf @ chunk)))"
proof -
  from assms have "i < length d" by simp
  from first_match_exists [where search = search and buf = "buf @ chunk", OF this assms(3)]
  obtain k rest where
    f: "first_match search d (buf @ chunk) = Some (k, rest)" and ki: "k \<le> i"
    by blast
  from f have s: "search (pattern_of (d ! k)) (buf @ chunk) = Some rest"
    and n: "\<forall>m<k. search (pattern_of (d ! m)) (buf @ chunk) = None"
    by (simp_all add: first_match_Some)
  have run: "dialog_run search d buf (chunk # chunks) =
      (if loop_continue (d ! k)
       then (case dialog_run search d rest chunks of
               (executed, result) \<Rightarrow> ((k, action_of (d ! k)) # executed, result))
       else ([(k, action_of (d ! k))], MatchResult k (buf @ chunk)))"
    using f by simp
  have "k = i \<longleftrightarrow> (\<forall>m<i. search (pattern_of (d ! m)) (buf @ chunk) = None)"
  proof
    assume "k = i"
    with n show "\<forall>m<i. search (pattern_of (d ! m)) (buf @ chunk) = None" by simp
  next
    assume a: "\<forall>m<i. search (pattern_of (d ! m)) (buf @ chunk) = None"
    show "k = i"
    proof (rule ccontr)
      assume "k \<noteq> i"
      with ki have "k < i" by simp
      with a s show False by simp
    qed
  qed
  with ki assms(1) s n run show ?thesis by (intro exI [of _ k] exI [of _ rest]) simp
qed

theorem dialog_run_executes_first_match_witness:
  "\<exists>rest.
     after_first ''Close Network Connection to Exit''
       (''Close Network Connection to Exit'' @ [CHR 0x0D, CHR 0x0A] @ ''> '') = Some rest \<and>
     dialog_run after_first (d_mio_to_fpr_module sample_chassis_prompts) []
       [''Close Network Connection to Exit'' @ [CHR 0x0D, CHR 0x0A] @ ''> '', [CHR 0x0D, CHR 0x0A]] =
       (case dialog_run after_first (d_mio_to_fpr_module sample_chassis_prompts) rest
               [[CHR 0x0D, CHR 0x0A]] of
          (executed, result) \<Rightarrow> ((0, Callback ''action_mio_to_fpr_module'') # executed, result))"
proof -
  let ?d = "d_mio_to_fpr_module sample_chassis_prompts"
  let ?chunk = "''Close Network Connection to Exit'' @ [CHR 0x0D, CHR 0x0A] @ ''> ''"
  have 1: "(0::nat) < 1" "1 < length ?d" by (simp_all add: d_mio_to_fpr_module_def)
  have 2: "after_first (pattern_of (?d ! 0)) ([] @ ?chunk) \<noteq> None"
    by (simp add: d_mio_to_fpr_module_def pattern_of_def)
  have 3: "after_first (pattern_of (?d ! 1)) ([] @ ?chunk) \<noteq> None"
    by (simp add: d_mio_to_fpr_module_def pattern_of_def sample_chassis_prompts_def)
  from dialog_run_executes_first_match
    [where search = after_first and buf = "[]" and chunk = ?chunk
       and chunks = "[[CHR 0x0D, CHR 0x0A]]", OF 1 2 3]
  obtain k rest where k: "k \<le> 0"
    and s: "after_first (pattern_of (?d ! k)) ([] @ ?chunk) = Some rest"
    and r: "dialog_run after_first ?d [] [?chunk, [CHR 0x0D, CHR 0x0A]] =
      (if loop_continue (?d ! k)
       then (case dialog_run after_first ?d rest [[CHR 0x0D, CHR 0x0A]] of
               (executed, result) \<Rightarrow> ((k, action_of (?d ! k)) # executed, result))
       else ([(k, action_of (?d ! k))], MatchResult k ([] @ ?chunk)))"
    by blast
  from k have k0: "k = 0" by simp
  have d0: "pattern_of (?d ! 0) = ''Close Network Connection to Exit''"
    "loop_continue (?d ! 0)" "action_of (?d ! 0) = Callback ''action_mio_to_fpr_module''"
    by (simp_all add: d_mio_to_fpr_module_def pattern_of_def loop_continue_def action_of_def)
  have s': "after_first ''Close Network Connection to Exit'' ?chunk = Some rest"
    using s unfolding k0 by (simp only: d0 append_Nil)
  have r': "dialog_run after_first ?d [] [?chunk, [CHR 0x0D, CHR 0x0A]] =
      (case dialog_run after_first ?d rest [[CHR 0x0D, CHR 0x0A]] of
         (executed, result) \<Rightarrow> ((0, Callback ''action_mio_to_fpr_module'') # executed, result))"
    using r unfolding k0 by (simp only: d0 if_True)
  from s' r' show ?thesis by (intro exI [of _ rest] conjI)
qed

text \<open>
  C1 as stated fails. In \<open>d_mio_to_fpr_module\<close>, on an input that satisfies the first
  rule, the rule of the FTD prompt and the rule of the root prompt, the run executes the
  action of the first rule and not that of the FTD prompt's rule, the earlier of the
  other two. And on an input that satisfies the first rule and the FTD prompt's rule,
  the action of the first rule is executed, and then, on the input left after the match
  and the next chunk, that of the FTD prompt's rule.
\<close>

theorem dialog_run_first_match_counterexample:
  "after_first (pattern_of (d_mio_to_fpr_module sample_chassis_prompts ! 1))
     (''Close Network Connection to Exit'' @ [CHR 0x0D, CHR 0x0A] @ ''root@firepower:~# > '') \<noteq> None \<and>
   after_first (pattern_of (d_mio_to_fpr_module sample_chassis_prompts ! 3))
     (''Close Network Connection to Exit'' @ [CHR 0x0D, CHR 0x0A] @ ''root@firepower:~# > '') \<noteq> None \<and>
   fst (dialog_run after_first (d_mio_to_fpr_module sample_chassis_prompts) []
          [''Close Network Connection to Exit'' @ [CHR 0x0D, CHR 0x0A] @ ''root@firepower:~# > '']) =
     [(0, Callback ''action_mio_to_fpr_module'')] \<and>
   after_first (pattern_of (d_mio_to_fpr_module sample_chassis_prompts ! 0))
     (''Close Network Connection to Exit'' @ [CHR 0x0D, CHR 0x0A] @ ''> '') \<noteq> None \<and>
   after_first (pattern_of (d_mio_to_fpr_module sample_chassis_prompts ! 1))
     (''Close Network Connection to Exit'' @ [CHR 0x0D, CHR 0x0A] @ ''> '') \<noteq> None \<and>
   fst (dialog_run after_first (d_mio_to_fpr_module sample_chassis_prompts) []
          [''Close Network Connection to Exit'' @ [CHR 0x0D, CHR 0x0A] @ ''> '', [CHR 0x0D, CHR 0x0A]]) =
     [(0, Callback ''action_mio_to_fpr_module''), (1, Act ''sendline(exit)'')]"
  by (simp add: d_mio_to_fpr_module_def sample_chassis_prompts_def pattern_of_def
      action_of_def loop_continue_def)

end
